theory Spec2Isabelle
  imports Complex_Main "HOL-Library.Word"
begin

section \<open>Frame codec (core.py)\<close>

text \<open>
  A byte string is a list of 8-bit words.  A TCP socket is modelled by the segments the
  peer still delivers (\<open>incoming\<close>, followed by an orderly end of stream), the data
  written so far (\<open>outgoing\<close>, one entry per \<open>sendall\<close>), and two flags: \<open>broken\<close>
  (the peer is gone, writes raise \<open>OSError\<close>) and \<open>closed\<close> (\<open>close()\<close> was called).
\<close>

type_synonym byte = "8 word"
type_synonym bytes = "byte list"

datatype error =
    ConnectionError
  | StructError
  | OSError
  | TypeError
  | AttributeError
  | WSConnectionClosed

record sock =
  incoming :: "bytes list"
  outgoing :: "bytes list"
  broken :: bool
  closed :: bool

text \<open>\<open>struct.pack("<I", n)\<close>: four bytes, least significant first; \<open>struct.error\<close>
  when \<open>n\<close> does not fit 32 bits.\<close>

definition le32 :: "nat \<Rightarrow> bytes" where
  "le32 n = [of_nat n, of_nat (n div 256), of_nat (n div 65536), of_nat (n div 16777216)]"

definition struct_pack_I :: "nat \<Rightarrow> error + bytes" where
  "struct_pack_I n = (if n < 2 ^ 32 then Inr (le32 n) else Inl StructError)"

text \<open>\<open>struct.unpack("<I", h)[0]\<close>: \<open>struct.error\<close> unless \<open>h\<close> has exactly four bytes.\<close>

definition struct_unpack_I :: "bytes \<Rightarrow> error + nat" where
  "struct_unpack_I h =
     (case h of
        [b0, b1, b2, b3] \<Rightarrow>
          Inr (unat b0 + 256 * unat b1 + 65536 * unat b2 + 16777216 * unat b3)
      | _ \<Rightarrow> Inl StructError)"

text \<open>\<open>conn.recv(k)\<close>: at most \<open>k\<close> bytes of the next segment that holds data; the empty
  byte string once the stream is exhausted.\<close>

fun sock_read :: "bytes list \<Rightarrow> nat \<Rightarrow> bytes \<times> bytes list" where
  "sock_read [] k = ([], [])"
| "sock_read (c # cs) k =
     (if c = [] then sock_read cs k
      else (take k c, if drop k c = [] then cs else drop k c # cs))"

definition recv :: "sock \<Rightarrow> nat \<Rightarrow> bytes \<times> sock" where
  "recv s k = (case sock_read (incoming s) k of (chunk, rest) \<Rightarrow> (chunk, s\<lparr>incoming := rest\<rparr>))"

definition sendall :: "sock \<Rightarrow> bytes \<Rightarrow> error + sock" where
  "sendall s data =
     (if broken s \<or> closed s then Inl OSError
      else Inr (s\<lparr>outgoing := outgoing s @ [data]\<rparr>))"

definition send_frame :: "sock \<Rightarrow> bytes \<Rightarrow> error + sock" where
  "send_frame conn payload_json =
     (case struct_pack_I (length payload_json) of
        Inl e \<Rightarrow> Inl e
      | Inr header \<Rightarrow> sendall conn (header @ payload_json))"

text \<open>The \<open>while len(buf) < n\<close> loop of \<open>recv_exact\<close>; the socket is returned with the
  result, also when the loop raises.\<close>

function recv_exact_loop :: "sock \<Rightarrow> nat \<Rightarrow> bytes \<Rightarrow> (error + bytes) \<times> sock" where
  "recv_exact_loop conn n buf =
     (if length buf < n then
        (case recv conn (n - length buf) of
           (chunk, conn') \<Rightarrow>
             if chunk = [] then (Inl ConnectionError, conn')
             else recv_exact_loop conn' n (buf @ chunk))
      else (Inr buf, conn))"
  by pat_completeness auto
termination
  by (relation "measure (\<lambda>(conn, n, buf). n - length buf)") (auto simp: neq_Nil_conv)

definition recv_exact :: "sock \<Rightarrow> nat \<Rightarrow> (error + bytes) \<times> sock" where
  "recv_exact conn n = recv_exact_loop conn n []"

definition recv_frame :: "sock \<Rightarrow> (error + bytes) \<times> sock" where
  "recv_frame conn =
     (case recv_exact conn 4 of
        (Inl e, conn1) \<Rightarrow> (Inl e, conn1)
      | (Inr header, conn1) \<Rightarrow>
          (case struct_unpack_I header of
             Inl e \<Rightarrow> (Inl e, conn1)
           | Inr len \<Rightarrow> recv_exact conn1 len))"

subsection \<open>Properties of the codec\<close>

lemma le_bytes_sum:
  fixes n :: nat
  assumes "n < 2 ^ 32"
  shows "n mod 256 + 256 * (n div 256 mod 256) + 65536 * (n div 65536 mod 256)
           + 16777216 * (n div 16777216 mod 256) = n"
proof -
  define a where "a = n div 256"
  define b where "b = a div 256"
  define c where "c = b div 256"
  define r0 where "r0 = n mod 256"
  define r1 where "r1 = a mod 256"
  define r2 where "r2 = b mod 256"
  have b: "n div 65536 = b"
    unfolding b_def a_def by (simp add: div_mult2_eq [symmetric])
  have c: "n div 16777216 = c"
    unfolding c_def b_def a_def by (simp add: div_mult2_eq [symmetric])
  have "n < 256 * 16777216" using assms by simp
  then have "n div 16777216 < 256" by (rule less_mult_imp_div_less)
  then have c4: "c mod 256 = c" unfolding c by simp
  have n1: "n = r0 + 256 * a" unfolding a_def r0_def by simp
  have a1: "a = r1 + 256 * b" unfolding b_def r1_def by simp
  have b1: "b = r2 + 256 * c" unfolding c_def r2_def by simp
  have "n = r0 + 256 * (r1 + 256 * (r2 + 256 * c))"
    using n1 a1 b1 by simp
  then have "r0 + 256 * r1 + 65536 * r2 + 16777216 * c = n"
    by simp
  then show ?thesis
    unfolding b c c4 r0_def r1_def r2_def a_def [symmetric] by simp
qed

lemma unat_byte: "unat (of_nat m :: byte) = m mod 256"
  by (simp add: unat_of_nat)

lemma length_le32: "length (le32 n) = 4"
  by (simp add: le32_def)

lemma unpack_le32:
  assumes "n < 2 ^ 32"
  shows "struct_unpack_I (le32 n) = Inr n"
  unfolding struct_unpack_I_def le32_def list.case unat_byte
  using le_bytes_sum [OF assms] by (simp only:)

lemma sock_read_spec:
  "sock_read cs k = (chunk, rest) \<Longrightarrow>
     chunk @ concat rest = concat cs \<and> length chunk \<le> k \<and>
     (chunk = [] \<longleftrightarrow> concat cs = [] \<or> k = 0) \<and> (chunk = [] \<and> k \<noteq> 0 \<longrightarrow> rest = [])"
proof (induction cs k arbitrary: chunk rest rule: sock_read.induct)
  case (1 k)
  then show ?case by simp
next
  case (2 c cs k)
  show ?case
  proof (cases "c = []")
    case True
    with 2 show ?thesis by auto
  next
    case False
    with 2 have ch: "chunk = take k c"
      and re: "rest = (if drop k c = [] then cs else drop k c # cs)"
      by simp_all
    have "chunk @ concat rest = concat (c # cs)"
      unfolding ch re by (cases "drop k c = []") simp_all
    moreover have "length chunk \<le> k" unfolding ch by simp
    moreover have e: "(chunk = []) = (concat (c # cs) = [] \<or> k = 0)"
      unfolding ch using False by (cases k) auto
    moreover have "chunk = [] \<and> k \<noteq> 0 \<longrightarrow> rest = []"
      using e False by auto
    ultimately show ?thesis by simp
  qed
qed

lemma recv_spec:
  assumes "recv conn k = (chunk, conn')"
  shows "chunk @ concat (incoming conn') = concat (incoming conn)"
    and "length chunk \<le> k"
    and "chunk = [] \<longleftrightarrow> concat (incoming conn) = [] \<or> k = 0"
    and "\<exists>inc'. conn' = conn\<lparr>incoming := inc'\<rparr>"
proof -
  obtain c r where sr: "sock_read (incoming conn) k = (c, r)"
    by (cases "sock_read (incoming conn) k")
  with assms have eq: "chunk = c" "conn' = conn\<lparr>incoming := r\<rparr>"
    by (simp_all add: recv_def)
  from sock_read_spec [OF sr] eq
  show "chunk @ concat (incoming conn') = concat (incoming conn)"
    and "length chunk \<le> k"
    and "chunk = [] \<longleftrightarrow> concat (incoming conn) = [] \<or> k = 0"
    by simp_all
  from eq show "\<exists>inc'. conn' = conn\<lparr>incoming := inc'\<rparr>" by blast
qed

lemma recv_exact_loop_ok:
  "length buf \<le> n \<Longrightarrow> n - length buf \<le> length (concat (incoming conn)) \<Longrightarrow>
   \<exists>inc'. recv_exact_loop conn n buf =
            (Inr (buf @ take (n - length buf) (concat (incoming conn))), conn\<lparr>incoming := inc'\<rparr>)
          \<and> concat inc' = drop (n - length buf) (concat (incoming conn))"
proof (induction conn n buf rule: recv_exact_loop.induct)
  case (1 conn n buf)
  let ?D = "concat (incoming conn)"
  let ?k = "n - length buf"
  show ?case
  proof (cases "length buf < n")
    case False
    with 1(2) have "?k = 0" by simp
    moreover have "recv_exact_loop conn n buf = (Inr buf, conn)"
      using False by (subst recv_exact_loop.simps) simp
    ultimately show ?thesis
      by (intro exI [of _ "incoming conn"]) simp
  next
    case True
    obtain chunk conn' where r: "recv conn ?k = (chunk, conn')"
      by (cases "recv conn ?k")
    note sp = recv_spec [OF r]
    from True have k0: "?k \<noteq> 0" by simp
    from True 1(3) have "0 < length ?D" by linarith
    then have "?D \<noteq> []" using length_greater_0_conv by blast
    with sp(3) k0 have ne: "chunk \<noteq> []" by blast
    have len: "length chunk \<le> ?k" by (rule sp(2))
    have D: "?D = chunk @ concat (incoming conn')" using sp(1) by simp
    have le': "length (buf @ chunk) \<le> n" using len True by simp
    have k': "n - length (buf @ chunk) \<le> length (concat (incoming conn'))"
      using 1(3) D by simp
    from "1.IH" [OF True r [symmetric] ne le' k']
    obtain inc' where ih: "recv_exact_loop conn' n (buf @ chunk) =
        (Inr ((buf @ chunk) @ take (n - length (buf @ chunk)) (concat (incoming conn'))),
             conn'\<lparr>incoming := inc'\<rparr>)"
      and dr: "concat inc' = drop (n - length (buf @ chunk)) (concat (incoming conn'))"
      by blast
    from sp(4) obtain i0 where c': "conn' = conn\<lparr>incoming := i0\<rparr>" by blast
    have step: "recv_exact_loop conn n buf = recv_exact_loop conn' n (buf @ chunk)"
      using True r ne by (subst recv_exact_loop.simps) simp
    have tk: "take ?k ?D = chunk @ take (n - length (buf @ chunk)) (concat (incoming conn'))"
      using len unfolding D by simp
    have dk: "drop ?k ?D = drop (n - length (buf @ chunk)) (concat (incoming conn'))"
      using len unfolding D by simp
    have "recv_exact_loop conn n buf = (Inr (buf @ take ?k ?D), conn\<lparr>incoming := inc'\<rparr>)"
      unfolding step ih tk by (simp add: c')
    moreover have "concat inc' = drop ?k ?D" unfolding dk by (rule dr)
    ultimately show ?thesis by blast
  qed
qed

lemma recv_exact_loop_short:
  "length (concat (incoming conn)) < n - length buf \<Longrightarrow>
   fst (recv_exact_loop conn n buf) = Inl ConnectionError"
proof (induction conn n buf rule: recv_exact_loop.induct)
  case (1 conn n buf)
  let ?D = "concat (incoming conn)"
  let ?k = "n - length buf"
  from 1(2) have lt: "length buf < n" by simp
  obtain chunk conn' where r: "recv conn ?k = (chunk, conn')"
    by (cases "recv conn ?k")
  note sp = recv_spec [OF r]
  show ?case
  proof (cases "chunk = []")
    case True
    then show ?thesis using lt r by (subst recv_exact_loop.simps) simp
  next
    case False
    have D: "?D = chunk @ concat (incoming conn')" using sp(1) by simp
    have "length (concat (incoming conn')) < n - length (buf @ chunk)"
      using 1(2) unfolding D by simp
    from "1.IH" [OF lt r [symmetric] False this]
    show ?thesis using lt r False by (subst recv_exact_loop.simps) simp
  qed
qed

lemma recv_exact_ok:
  assumes "n \<le> length (concat (incoming conn))"
  shows "\<exists>inc'. recv_exact conn n = (Inr (take n (concat (incoming conn))), conn\<lparr>incoming := inc'\<rparr>)
          \<and> concat inc' = drop n (concat (incoming conn))"
  using recv_exact_loop_ok [of "[]" n conn] assms by (simp add: recv_exact_def)

lemma recv_exact_short:
  assumes "length (concat (incoming conn)) < n"
  shows "fst (recv_exact conn n) = Inl ConnectionError"
  using recv_exact_loop_short [of conn n "[]"] assms by (simp add: recv_exact_def)

text \<open>What \<open>recv_frame\<close> returns, by the bytes the stream still holds.\<close>

lemma recv_frame_header_short:
  assumes "length (concat (incoming conn)) < 4"
  shows "fst (recv_frame conn) = Inl ConnectionError"
proof -
  obtain r c1 where e: "recv_exact conn 4 = (r, c1)" by (cases "recv_exact conn 4")
  with recv_exact_short [OF assms] have "r = Inl ConnectionError" by simp
  with e show ?thesis by (simp add: recv_frame_def)
qed

lemma recv_frame_cases:
  assumes len: "4 \<le> length (concat (incoming conn))"
    and up: "struct_unpack_I (take 4 (concat (incoming conn))) = Inr n"
  shows "(length (concat (incoming conn)) < n + 4 \<longrightarrow> fst (recv_frame conn) = Inl ConnectionError)
       \<and> (n + 4 \<le> length (concat (incoming conn)) \<longrightarrow>
           (\<exists>inc'. recv_frame conn =
                     (Inr (take n (drop 4 (concat (incoming conn)))), conn\<lparr>incoming := inc'\<rparr>)
                  \<and> concat inc' = drop (n + 4) (concat (incoming conn))))"
proof -
  let ?D = "concat (incoming conn)"
  from recv_exact_ok [OF len] obtain i1 where
    h: "recv_exact conn 4 = (Inr (take 4 ?D), conn\<lparr>incoming := i1\<rparr>)"
    and d1: "concat i1 = drop 4 ?D" by blast
  let ?c1 = "conn\<lparr>incoming := i1\<rparr>"
  have rf: "recv_frame conn = recv_exact ?c1 n"
    by (simp add: recv_frame_def h up)
  have inc1: "concat (incoming ?c1) = drop 4 ?D" using d1 by simp
  show ?thesis
  proof (intro conjI impI)
    assume "length ?D < n + 4"
    then have "length (concat (incoming ?c1)) < n" unfolding inc1 using len by simp
    from recv_exact_short [OF this] show "fst (recv_frame conn) = Inl ConnectionError"
      unfolding rf .
  next
    assume "n + 4 \<le> length ?D"
    then have "n \<le> length (concat (incoming ?c1))" unfolding inc1 by simp
    from recv_exact_ok [OF this] obtain i2 where
      r2: "recv_exact ?c1 n = (Inr (take n (concat (incoming ?c1))), ?c1\<lparr>incoming := i2\<rparr>)"
      and d2: "concat i2 = drop n (concat (incoming ?c1))" by blast
    have "recv_frame conn = (Inr (take n (drop 4 ?D)), conn\<lparr>incoming := i2\<rparr>)"
      unfolding rf r2 inc1 by simp
    moreover have "concat i2 = drop (n + 4) ?D"
      using d2 unfolding inc1 by (simp add: add.commute)
    ultimately show "\<exists>inc'. recv_frame conn = (Inr (take n (drop 4 ?D)), conn\<lparr>incoming := inc'\<rparr>)
        \<and> concat inc' = drop (n + 4) ?D" by blast
  qed
qed

lemma unpack_total:
  assumes "length h = 4"
  shows "\<exists>n. struct_unpack_I h = Inr n"
proof -
  from assms obtain b0 b1 b2 b3 where "h = [b0, b1, b2, b3]"
    by (auto simp: length_Suc_conv eval_nat_numeral)
  then show ?thesis by (simp add: struct_unpack_I_def)
qed

section \<open>JSON values and the Python operations the bridge applies to them\<close>

text \<open>
  The values \<open>json.loads\<close> produces.  A \<open>dict\<close> is an association list with string keys,
  in insertion order; \<open>None\<close> is \<open>JNull\<close>.  A \<open>str\<close> is a \<open>string\<close> whose characters are
  the code points below 256.  \<open>JFloat r\<close> is the finite float denoting the real \<open>r\<close>
  (\<open>NaN\<close> and the infinities, which JSON text proper cannot express, are left out).
\<close>

datatype json =
    JNull
  | JBool bool
  | JInt int
  | JFloat real
  | JStr string
  | JArr "json list"
  | JObj "(string \<times> json) list"

type_synonym jdict = "(string \<times> json) list"

text \<open>\<open>k in d\<close>, \<open>d.get(k)\<close>, \<open>d.get(k, default)\<close> and \<open>d[k] = v\<close>.\<close>

definition dict_has :: "jdict \<Rightarrow> string \<Rightarrow> bool" where
  "dict_has d k = (map_of d k \<noteq> None)"

definition dict_get :: "jdict \<Rightarrow> string \<Rightarrow> json" where
  "dict_get d k = (case map_of d k of None \<Rightarrow> JNull | Some v \<Rightarrow> v)"

definition dict_get_default :: "jdict \<Rightarrow> string \<Rightarrow> json \<Rightarrow> json" where
  "dict_get_default d k dflt = (case map_of d k of None \<Rightarrow> dflt | Some v \<Rightarrow> v)"

fun dict_set :: "jdict \<Rightarrow> string \<Rightarrow> json \<Rightarrow> jdict" where
  "dict_set [] k v = [(k, v)]"
| "dict_set ((k', v') # d) k v =
     (if k' = k then (k, v) # d else (k', v') # dict_set d k v)"

text \<open>Truth value testing (\<open>not x\<close>, \<open>x or y\<close>, \<open>if x\<close>).\<close>

fun py_truthy :: "json \<Rightarrow> bool" where
  "py_truthy JNull = False"
| "py_truthy (JBool b) = b"
| "py_truthy (JInt i) = (i \<noteq> 0)"
| "py_truthy (JFloat r) = (r \<noteq> 0)"
| "py_truthy (JStr s) = (s \<noteq> [])"
| "py_truthy (JArr xs) = (xs \<noteq> [])"
| "py_truthy (JObj kvs) = (kvs \<noteq> [])"

text \<open>The operator \<open>==\<close>: \<open>bool\<close>, \<open>int\<close> and \<open>float\<close> compare by numeric value
  (\<open>True == 1 == 1.0\<close>), lists element by element, dictionaries by their number of
  keys and then key by key.\<close>

fun py_num :: "json \<Rightarrow> real option" where
  "py_num (JBool b) = Some (if b then 1 else 0)"
| "py_num (JInt i) = Some (of_int i)"
| "py_num (JFloat r) = Some r"
| "py_num _ = None"

fun py_eq :: "json \<Rightarrow> json \<Rightarrow> bool" where
  "py_eq (JStr s) y = (case y of JStr t \<Rightarrow> s = t | _ \<Rightarrow> False)"
| "py_eq (JArr xs) y = (case y of JArr ys \<Rightarrow> list_all2 py_eq xs ys | _ \<Rightarrow> False)"
| "py_eq (JObj a) y =
     (case y of
        JObj b \<Rightarrow>
          length (remdups (map fst a)) = length (remdups (map fst b))
          \<and> list_all (\<lambda>(k, v). case map_of b k of None \<Rightarrow> False | Some v' \<Rightarrow> py_eq v v') a
      | _ \<Rightarrow> False)"
| "py_eq JNull y = (y = JNull)"
| "py_eq x y = (case (py_num x, py_num y) of (Some a, Some b) \<Rightarrow> a = b | _ \<Rightarrow> False)"

text \<open>\<open>str.endswith\<close>, \<open>str.isspace\<close> on one character, and \<open>str.strip()\<close>.\<close>

definition endswith :: "string \<Rightarrow> string \<Rightarrow> bool" where
  "endswith s suffix =
     (length suffix \<le> length s \<and> drop (length s - length suffix) s = suffix)"

definition is_space :: "char \<Rightarrow> bool" where
  "is_space c = ((of_char c :: nat) \<in> set [9, 10, 11, 12, 13, 28, 29, 30, 31, 32, 133, 160])"

definition strip :: "string \<Rightarrow> string" where
  "strip s = rev (dropWhile is_space (rev (dropWhile is_space s)))"

text \<open>\<open>str(x)\<close>: a \<open>str\<close> is returned as it is; for every other value \<open>str\<close> is \<open>repr\<close>,
  a builtin taken as the parameter \<open>repr\<close>.\<close>

definition py_str :: "(json \<Rightarrow> string) \<Rightarrow> json \<Rightarrow> string" where
  "py_str repr x = (case x of JStr s \<Rightarrow> s | _ \<Rightarrow> repr x)"

subsection \<open>\<open>json.dumps\<close> and \<open>str.encode("utf-8")\<close>\<close>

definition hex_digit :: "nat \<Rightarrow> char" where
  "hex_digit d = ''0123456789abcdef'' ! (d mod 16)"

text \<open>\<open>ensure_ascii\<close> escaping of one character of a string.\<close>

definition escape_char :: "char \<Rightarrow> string" where
  "escape_char c =
     (let n = (of_char c :: nat) in
      if n = 34 then [CHR 0x5C, CHR 0x22]
      else if n = 92 then [CHR 0x5C, CHR 0x5C]
      else if n = 8 then [CHR 0x5C, CHR ''b'']
      else if n = 12 then [CHR 0x5C, CHR ''f'']
      else if n = 10 then [CHR 0x5C, CHR ''n'']
      else if n = 13 then [CHR 0x5C, CHR ''r'']
      else if n = 9 then [CHR 0x5C, CHR ''t'']
      else if 32 \<le> n \<and> n \<le> 126 then [c]
      else [CHR 0x5C, CHR ''u'', CHR ''0'', CHR ''0'', hex_digit (n div 16), hex_digit n])"

definition quote_str :: "string \<Rightarrow> string" where
  "quote_str s = [CHR 0x22] @ concat (map escape_char s) @ [CHR 0x22]"

function dec_digits :: "nat \<Rightarrow> string" where
  "dec_digits n =
     (if n < 10 then [''0123456789'' ! n]
      else dec_digits (n div 10) @ [''0123456789'' ! (n mod 10)])"
  by pat_completeness auto
termination
  by (relation "measure id") auto

definition int_str :: "int \<Rightarrow> string" where
  "int_str i = (if i < 0 then CHR ''-'' # dec_digits (nat (- i)) else dec_digits (nat i))"

fun join :: "string \<Rightarrow> string list \<Rightarrow> string" where
  "join sep [] = []"
| "join sep [x] = x"
| "join sep (x # y # ys) = x @ sep @ join sep (y # ys)"

text \<open>\<open>json.dumps(v, separators=(item_sep, key_sep))\<close>; the default separators are
  \<open>", "\<close> and \<open>": "\<close>.  The text of a float is \<open>float.__repr__\<close>, the parameter \<open>frepr\<close>.\<close>

fun json_dumps :: "(real \<Rightarrow> string) \<Rightarrow> string \<Rightarrow> string \<Rightarrow> json \<Rightarrow> string" where
  "json_dumps frepr item_sep key_sep JNull = ''null''"
| "json_dumps frepr item_sep key_sep (JBool b) = (if b then ''true'' else ''false'')"
| "json_dumps frepr item_sep key_sep (JInt i) = int_str i"
| "json_dumps frepr item_sep key_sep (JFloat r) = frepr r"
| "json_dumps frepr item_sep key_sep (JStr s) = quote_str s"
| "json_dumps frepr item_sep key_sep (JArr xs) =
     ''['' @ join item_sep (map (json_dumps frepr item_sep key_sep) xs) @ '']''"
| "json_dumps frepr item_sep key_sep (JObj kvs) =
     ''{'' @ join item_sep
              (map (\<lambda>(k, v). quote_str k @ key_sep @ json_dumps frepr item_sep key_sep v) kvs)
       @ ''}''"

definition dumps_default :: "(real \<Rightarrow> string) \<Rightarrow> json \<Rightarrow> string" where
  "dumps_default frepr v = json_dumps frepr '', '' '': '' v"

definition dumps_compact :: "(real \<Rightarrow> string) \<Rightarrow> json \<Rightarrow> string" where
  "dumps_compact frepr v = json_dumps frepr '','' '':'' v"

definition utf8_encode :: "string \<Rightarrow> bytes" where
  "utf8_encode s =
     concat (map (\<lambda>c. let n = (of_char c :: nat) in
                        if n < 128 then [of_nat n]
                        else [of_nat (192 + n div 64), of_nat (128 + n mod 64)]) s)"

section \<open>Command and controller helpers (tcp\_helpers.py)\<close>

text \<open>\<open>dict(x)\<close> copies a dictionary.  The controller data model has a mapping (or nothing)
  under \<open>rotation\<close>; for any other truthy value the constructor raises unless the value
  happens to be a sequence of pairs, and the model takes all of those to the error branch.\<close>

fun py_dict :: "json \<Rightarrow> error + jdict" where
  "py_dict (JObj kvs) = Inr kvs"
| "py_dict _ = Inl TypeError"

text \<open>The body of the loop \<open>for idx, c in enumerate(controllers or [])\<close> of
  \<open>normalize_controllers\<close> for one controller dictionary \<open>c\<close>: \<open>None\<close> when it leaves the
  entry out (\<open>continue\<close>), \<open>Some (Inr ctrl)\<close> when it appends \<open>ctrl\<close>, \<open>Some (Inl e)\<close> when
  it raises.\<close>

definition normalize_body :: "(json \<Rightarrow> string) \<Rightarrow> jdict \<Rightarrow> (error + jdict) option" where
  "normalize_body repr c =
     (let ctrl = c;
          cid = dict_get ctrl ''id''
      in if \<not> py_truthy cid \<or> (case cid of JStr s \<Rightarrow> strip s = [] | _ \<Rightarrow> False)
         then None
         else
           let ctrl1 = dict_set ctrl ''id'' (JStr (py_str repr cid));
               r = dict_get ctrl1 ''rotation''
           in case py_dict (if py_truthy r then r else JObj []) of
                Inl e \<Rightarrow> Some (Inl e)
              | Inr rot \<Rightarrow>
                  let rot1 = (if \<not> dict_has rot ''w'' \<or> dict_get rot ''w'' = JNull
                              then dict_set rot ''w'' (JFloat 1) else rot);
                      ctrl2 = dict_set ctrl1 ''rotation'' (JObj rot1)
                  in Some (Inr ctrl2))"

text \<open>The loop, with the list \<open>normalized\<close> built so far.\<close>

fun normalize_loop :: "(json \<Rightarrow> string) \<Rightarrow> jdict list \<Rightarrow> jdict list \<Rightarrow> error + jdict list" where
  "normalize_loop repr [] normalized = Inr normalized"
| "normalize_loop repr (c # cs) normalized =
     (case normalize_body repr c of
        None \<Rightarrow> normalize_loop repr cs normalized
      | Some (Inl e) \<Rightarrow> Inl e
      | Some (Inr ctrl) \<Rightarrow> normalize_loop repr cs (normalized @ [ctrl]))"

definition normalize_controllers :: "(json \<Rightarrow> string) \<Rightarrow> jdict list option \<Rightarrow> error + jdict list" where
  "normalize_controllers repr controllers =
     normalize_loop repr (case controllers of None \<Rightarrow> [] | Some cs \<Rightarrow> cs) []"

text \<open>\<open>send_set_controller(conn, controllers)\<close>; \<open>ts\<close> is the value of \<open>now_iso()\<close>, a
  function \<open>tcp_helpers\<close> imports from \<open>core\<close>.\<close>

definition send_set_controller ::
  "(json \<Rightarrow> string) \<Rightarrow> (real \<Rightarrow> string) \<Rightarrow> string \<Rightarrow> sock \<Rightarrow> jdict list option \<Rightarrow> error + sock" where
  "send_set_controller repr frepr ts conn controllers =
     (if controllers = None \<or> controllers = Some [] then Inr conn
      else case normalize_controllers repr controllers of
             Inl e \<Rightarrow> Inl e
           | Inr cs \<Rightarrow>
               if cs = [] then Inr conn
               else
                 let payload = JObj [(''cmd'', JStr ''set_controller''),
                                     (''data'', JArr (map JObj cs)),
                                     (''ts'', JStr ts)];
                     wire_plain = utf8_encode (dumps_compact frepr payload)
                 in send_frame conn wire_plain)"

text \<open>\<open>extract_payload(obj)\<close>.\<close>

definition extract_payload :: "jdict \<Rightarrow> json" where
  "extract_payload obj =
     (if dict_has obj ''data'' \<and> dict_get obj ''data'' \<noteq> JNull then dict_get obj ''data''
      else if dict_has obj ''morphs'' \<and> dict_get obj ''morphs'' \<noteq> JNull then dict_get obj ''morphs''
      else if dict_has obj ''controllers'' \<and> dict_get obj ''controllers'' \<noteq> JNull
        then dict_get obj ''controllers''
      else JNull)"

text \<open>\<open>normalize_cmd(cmd, obj, payload)\<close>; \<open>cmd\<close> is a \<open>str\<close>, or \<open>None\<close> when the
  envelope has no command.\<close>

definition normalize_cmd :: "string option \<Rightarrow> jdict \<Rightarrow> json \<Rightarrow> string" where
  "normalize_cmd cmd obj payload =
     (if (case cmd of None \<Rightarrow> False | Some c \<Rightarrow> c \<noteq> [] \<and> endswith c ''_result'')
      then (case cmd of None \<Rightarrow> [] | Some c \<Rightarrow> c)
      else if payload \<noteq> JNull \<and> dict_has obj ''morphs''
              \<and> cmd \<notin> set [Some ''read_all_morphs'', Some ''read_all_morphs_result'']
        then ''read_all_morphs''
      else if payload \<noteq> JNull \<and> dict_has obj ''controllers''
              \<and> cmd \<notin> set [Some ''read_all_controllers'', Some ''read_all_controllers_result'']
        then ''read_all_controllers''
      else (case cmd of None \<Rightarrow> [] | Some c \<Rightarrow> c))"

section \<open>The bridge (app.py)\<close>

text \<open>
  The module state: the set of native connections and their identities, the set of
  browser connections and theirs, the sockets behind the handles, and the broadcast
  coroutines the native threads have submitted to the event loop
  (\<open>asyncio.run_coroutine_threadsafe(broadcast(m), loop)\<close>) that have not run yet.
  A Python \<open>set\<close> is a list without repetition, in the order its iteration yields.
\<close>

type_synonym conn = nat
type_synonym ws = nat

record wsock =
  ws_sent :: "string list"
  ws_broken :: bool

record bridge =
  tcp_clients :: "conn list"
  tcp_identities :: "conn \<Rightarrow> jdict option"
  ws_clients :: "ws list"
  ws_identities :: "ws \<Rightarrow> jdict option"
  socks :: "conn \<Rightarrow> sock"
  wsocks :: "ws \<Rightarrow> wsock"
  scheduled :: "json list"

datatype 'a flow = Continue 'a | Break 'a | Raise error 'a

definition set_add :: "nat list \<Rightarrow> nat \<Rightarrow> nat list" where
  "set_add xs x = (if x \<in> set xs then xs else xs @ [x])"

definition set_discard :: "nat list \<Rightarrow> nat \<Rightarrow> nat list" where
  "set_discard xs x = removeAll x xs"

text \<open>\<open>await ws.send(data)\<close>: raises once the browser connection is gone.\<close>

definition ws_send :: "wsock \<Rightarrow> string \<Rightarrow> error + wsock" where
  "ws_send w data =
     (if ws_broken w then Inl WSConnectionClosed else Inr (w\<lparr>ws_sent := ws_sent w @ [data]\<rparr>))"

text \<open>\<open>broadcast(message)\<close>: the loop over \<open>list(ws_clients)\<close>.\<close>

fun broadcast_loop :: "bridge \<Rightarrow> ws list \<Rightarrow> string \<Rightarrow> bridge" where
  "broadcast_loop st [] data = st"
| "broadcast_loop st (w # rest) data =
     (case ws_send (wsocks st w) data of
        Inr w' \<Rightarrow> broadcast_loop (st\<lparr>wsocks := (wsocks st)(w := w')\<rparr>) rest data
      | Inl e \<Rightarrow> broadcast_loop (st\<lparr>ws_clients := set_discard (ws_clients st) w\<rparr>) rest data)"

definition broadcast :: "(real \<Rightarrow> string) \<Rightarrow> bridge \<Rightarrow> json \<Rightarrow> bridge" where
  "broadcast frepr st message = broadcast_loop st (ws_clients st) (dumps_default frepr message)"

text \<open>\<open>ws_helpers.broadcast\<close>: the same loop after \<open>json.dumps\<close> with compact separators
  (its \<open>except\<close> branch for a message that does not serialise is not reached by a JSON
  value).\<close>

definition ws_helpers_broadcast :: "(real \<Rightarrow> string) \<Rightarrow> bridge \<Rightarrow> json \<Rightarrow> bridge" where
  "ws_helpers_broadcast frepr st message =
     broadcast_loop st (ws_clients st) (dumps_compact frepr message)"

text \<open>The event loop runs the oldest submitted broadcast.\<close>

definition run_scheduled :: "(real \<Rightarrow> string) \<Rightarrow> bridge \<Rightarrow> bridge" where
  "run_scheduled frepr st =
     (case scheduled st of
        [] \<Rightarrow> st
      | m # ms \<Rightarrow> broadcast frepr (st\<lparr>scheduled := ms\<rparr>) m)"

subsection \<open>Native side: \<open>handle_tcp_client\<close>\<close>

text \<open>One pass through the body of \<open>while True\<close>.  \<open>loads\<close> is
  \<open>json.loads(frame.decode("utf-8"))\<close>, \<open>None\<close> when it raises.\<close>

definition tcp_iteration ::
  "(bytes \<Rightarrow> json option) \<Rightarrow> (real \<Rightarrow> string) \<Rightarrow> bridge \<Rightarrow> conn \<Rightarrow> bridge flow" where
  "tcp_iteration loads frepr st conn =
     (case recv_frame (socks st conn) of
        (Inl e, s1) \<Rightarrow> Break (st\<lparr>socks := (socks st)(conn := s1)\<rparr>)
      | (Inr frame, s1) \<Rightarrow>
          let st1 = st\<lparr>socks := (socks st)(conn := s1)\<rparr> in
          if frame = [] then Break st1
          else case loads frame of
            None \<Rightarrow> Break st1
          | Some (JObj obj) \<Rightarrow>
              let cmd = dict_get obj ''cmd'' in
              if py_eq cmd (JStr ''hello'') then
                let client_id = dict_get_default obj ''id'' (JStr '''');
                    client_name = dict_get_default obj ''name'' (JStr '''');
                    st2 = st1\<lparr>tcp_identities := (tcp_identities st1)
                             (conn := Some [(''id'', client_id), (''name'', client_name)])\<rparr>;
                    ack = JObj [(''cmd'', JStr ''acknowledge''), (''ack'', JStr ''hello''),
                                (''id'', client_id), (''name'', client_name)]
                in case send_frame (socks st2 conn) (utf8_encode (dumps_default frepr ack)) of
                     Inl e \<Rightarrow> Raise e st2
                   | Inr s2 \<Rightarrow>
                       Continue (st2\<lparr>socks := (socks st2)(conn := s2),
                                     scheduled := scheduled st2 @ [ack]\<rparr>)
              else Continue (st1\<lparr>scheduled := scheduled st1 @ [JObj obj]\<rparr>)
          | Some _ \<Rightarrow> Raise AttributeError st1)"

text \<open>A frame that \<open>recv_frame\<close> returns has been taken off the stream, header
  included; nothing else of the socket changes.\<close>

lemma recv_frame_consumes:
  assumes "recv_frame c = (Inr p, c')"
  shows "length (concat (incoming c')) + length p + 4 = length (concat (incoming c))"
    and "\<exists>inc'. c' = c\<lparr>incoming := inc'\<rparr>"
    and "p = take (length p) (drop 4 (concat (incoming c)))"
proof -
  let ?D = "concat (incoming c)"
  have len: "4 \<le> length ?D"
  proof (rule ccontr)
    assume "\<not> 4 \<le> length ?D"
    then have "length ?D < 4" by simp
    from recv_frame_header_short [OF this] assms show False by simp
  qed
  have "length (take 4 ?D) = 4" using len by simp
  from unpack_total [OF this] obtain n where up: "struct_unpack_I (take 4 ?D) = Inr n"
    by blast
  note rc = recv_frame_cases [OF len up]
  have full: "n + 4 \<le> length ?D"
  proof (rule ccontr)
    assume "\<not> n + 4 \<le> length ?D"
    then have "length ?D < n + 4" by simp
    with rc have "fst (recv_frame c) = Inl ConnectionError" by blast
    with assms show False by simp
  qed
  with rc obtain inc' where
    rf: "recv_frame c = (Inr (take n (drop 4 ?D)), c\<lparr>incoming := inc'\<rparr>)"
    and rest: "concat inc' = drop (n + 4) ?D"
    by blast
  from rf assms have p: "p = take n (drop 4 ?D)" and c': "c' = c\<lparr>incoming := inc'\<rparr>"
    by simp_all
  have lp: "length p = n" unfolding p using full by simp
  show "length (concat (incoming c')) + length p + 4 = length ?D"
    unfolding lp c' using rest full by simp
  show "\<exists>inc'. c' = c\<lparr>incoming := inc'\<rparr>" using c' by blast
  show "p = take (length p) (drop 4 ?D)" unfolding lp by (rule p)
qed

lemma send_frame_incoming:
  "send_frame c data = Inr c' \<Longrightarrow> incoming c' = incoming c"
  by (auto simp: send_frame_def sendall_def split: sum.splits if_splits)

lemma tcp_iteration_progress:
  assumes "tcp_iteration loads frepr st conn = Continue st'"
  shows "length (concat (incoming (socks st' conn))) < length (concat (incoming (socks st conn)))"
proof -
  obtain r s1 where rf: "recv_frame (socks st conn) = (r, s1)"
    by (cases "recv_frame (socks st conn)")
  with assms obtain frame where r: "r = Inr frame"
    by (cases r) (simp_all add: tcp_iteration_def)
  from recv_frame_consumes(1) [OF rf [unfolded r]]
  have lt: "length (concat (incoming s1)) < length (concat (incoming (socks st conn)))"
    by simp
  have "incoming (socks st' conn) = incoming s1"
    using assms rf r
    by (auto simp: tcp_iteration_def Let_def dest: send_frame_incoming
             split: if_splits option.splits json.splits sum.splits)
  with lt show ?thesis by simp
qed

text \<open>The \<open>while True\<close> loop: it ends with \<open>break\<close> (no exception) or with the exception
  that leaves it.\<close>

function tcp_loop ::
  "(bytes \<Rightarrow> json option) \<Rightarrow> (real \<Rightarrow> string) \<Rightarrow> bridge \<Rightarrow> conn \<Rightarrow> error option \<times> bridge" where
  "tcp_loop loads frepr st conn =
     (case tcp_iteration loads frepr st conn of
        Continue st' \<Rightarrow> tcp_loop loads frepr st' conn
      | Break st' \<Rightarrow> (None, st')
      | Raise e st' \<Rightarrow> (Some e, st'))"
  by pat_completeness auto
termination
  by (relation "measure (\<lambda>(loads, frepr, st, conn). length (concat (incoming (socks st conn))))")
     (auto dest: tcp_iteration_progress)

text \<open>\<open>handle_tcp_client(conn, addr, loop)\<close>: register the connection, run the loop, and in
  the \<open>finally\<close> block forget the connection and its identity and close the socket.\<close>

definition handle_tcp_client ::
  "(bytes \<Rightarrow> json option) \<Rightarrow> (real \<Rightarrow> string) \<Rightarrow> bridge \<Rightarrow> conn \<Rightarrow> error option \<times> bridge" where
  "handle_tcp_client loads frepr st conn =
     (case tcp_loop loads frepr (st\<lparr>tcp_clients := set_add (tcp_clients st) conn\<rparr>) conn of
        (exc, st1) \<Rightarrow>
          (exc, st1\<lparr>tcp_clients := set_discard (tcp_clients st1) conn,
                     tcp_identities := (tcp_identities st1)(conn := None),
                     socks := (socks st1)(conn := (socks st1 conn)\<lparr>closed := True\<rparr>)\<rparr>))"

subsection \<open>Browser side: \<open>ws_handler\<close>\<close>

text \<open>The loop \<open>for conn in list(tcp_clients)\<close> that forwards \<open>wire\<close> to the native
  connections whose identity matches the target; a failed \<open>send_frame\<close> is caught and
  the loop goes on.\<close>

fun forward_loop :: "bridge \<Rightarrow> conn list \<Rightarrow> json \<Rightarrow> json \<Rightarrow> bytes \<Rightarrow> bridge" where
  "forward_loop st [] target_id target_name wire = st"
| "forward_loop st (conn # rest) target_id target_name wire =
     (case tcp_identities st conn of
        None \<Rightarrow> forward_loop st rest target_id target_name wire
      | Some ident \<Rightarrow>
          if ident \<noteq> [] \<and> py_eq (dict_get ident ''id'') target_id
               \<and> py_eq (dict_get ident ''name'') target_name
          then (case send_frame (socks st conn) wire of
                  Inr s' \<Rightarrow>
                    forward_loop (st\<lparr>socks := (socks st)(conn := s')\<rparr>) rest
                      target_id target_name wire
                | Inl e \<Rightarrow> forward_loop st rest target_id target_name wire)
          else forward_loop st rest target_id target_name wire)"

text \<open>The body of \<open>async for msg in ws\<close> once \<open>json.loads(msg)\<close> has returned \<open>obj\<close>.\<close>

definition ws_dispatch :: "(real \<Rightarrow> string) \<Rightarrow> bridge \<Rightarrow> ws \<Rightarrow> json \<Rightarrow> bridge flow" where
  "ws_dispatch frepr st ws obj =
     (case obj of
        JObj kvs \<Rightarrow>
          let cmd = dict_get kvs ''cmd'' in
          if py_eq cmd (JStr ''hello'') then
            let client_id = dict_get_default kvs ''id'' (JStr '''');
                client_name = dict_get_default kvs ''name'' (JStr '''');
                st1 = st\<lparr>ws_identities := (ws_identities st)
                         (ws := Some [(''id'', client_id), (''name'', client_name)])\<rparr>;
                ack = JObj [(''cmd'', JStr ''acknowledge''), (''ack'', JStr ''hello''),
                            (''id'', client_id), (''name'', client_name)]
            in case ws_send (wsocks st1 ws) (dumps_default frepr ack) of
                 Inl e \<Rightarrow> Raise e st1
               | Inr w' \<Rightarrow> Continue (st1\<lparr>wsocks := (wsocks st1)(ws := w')\<rparr>)
          else
            let target_id = dict_get kvs ''id'';
                target_name = dict_get kvs ''name'';
                wire = utf8_encode (dumps_default frepr obj)
            in Continue (forward_loop st (tcp_clients st) target_id target_name wire)
      | _ \<Rightarrow> Raise AttributeError st)"

text \<open>One message: \<open>loads\<close> is \<open>json.loads\<close>, \<open>None\<close> when it raises (the message is
  skipped).\<close>

definition ws_on_message ::
  "(string \<Rightarrow> json option) \<Rightarrow> (real \<Rightarrow> string) \<Rightarrow> bridge \<Rightarrow> ws \<Rightarrow> string \<Rightarrow> bridge flow" where
  "ws_on_message loads frepr st ws msg =
     (case loads msg of
        None \<Rightarrow> Continue st
      | Some obj \<Rightarrow> ws_dispatch frepr st ws obj)"

fun ws_loop ::
  "(string \<Rightarrow> json option) \<Rightarrow> (real \<Rightarrow> string) \<Rightarrow> bridge \<Rightarrow> ws \<Rightarrow> string list
     \<Rightarrow> error option \<times> bridge" where
  "ws_loop loads frepr st ws [] = (None, st)"
| "ws_loop loads frepr st ws (msg # msgs) =
     (case ws_on_message loads frepr st ws msg of
        Continue st' \<Rightarrow> ws_loop loads frepr st' ws msgs
      | Break st' \<Rightarrow> (None, st')
      | Raise e st' \<Rightarrow> (Some e, st'))"

text \<open>\<open>ws_handler(ws)\<close> for a browser that sends \<open>msgs\<close> and then closes.\<close>

definition ws_handler ::
  "(string \<Rightarrow> json option) \<Rightarrow> (real \<Rightarrow> string) \<Rightarrow> bridge \<Rightarrow> ws \<Rightarrow> string list
     \<Rightarrow> error option \<times> bridge" where
  "ws_handler loads frepr st ws msgs =
     (case ws_loop loads frepr (st\<lparr>ws_clients := set_add (ws_clients st) ws\<rparr>) ws msgs of
        (exc, st1) \<Rightarrow>
          (exc, st1\<lparr>ws_clients := set_discard (ws_clients st1) ws,
                     ws_identities := (ws_identities st1)(ws := None)\<rparr>))"

section \<open>Example states\<close>

text \<open>A socket and a browser connection in working order with nothing sent or pending,
  and a bridge with no connections.\<close>

definition sock0 :: sock where
  "sock0 = \<lparr>incoming = [], outgoing = [], broken = False, closed = False\<rparr>"

definition wsock0 :: wsock where
  "wsock0 = \<lparr>ws_sent = [], ws_broken = False\<rparr>"

text \<open>Stand-ins for the builtins \<open>repr\<close>, \<open>float.__repr__\<close> and \<open>json.loads\<close> in
  examples that hold no float and no id other than a string (the first two are never
  consulted there), or whose parser is never reached.\<close>

definition repr_stub :: "json \<Rightarrow> string" where
  "repr_stub x = ''?''"

definition frepr_stub :: "real \<Rightarrow> string" where
  "frepr_stub r = ''?''"

definition loads_stub :: "bytes \<Rightarrow> json option" where
  "loads_stub b = Some (JObj [])"

definition bridge0 :: bridge where
  "bridge0 = \<lparr>tcp_clients = [], tcp_identities = (\<lambda>_. None),
              ws_clients = [], ws_identities = (\<lambda>_. None),
              socks = (\<lambda>_. sock0), wsocks = (\<lambda>_. wsock0), scheduled = []\<rparr>"

text \<open>Three native connections: 1 registered as \<open>(p1, PluginA)\<close>, 2 as \<open>(p2, PluginB)\<close>,
  3 connected without identity.\<close>

definition bridge_plugins :: bridge where
  "bridge_plugins =
     bridge0\<lparr>tcp_clients := [1, 2, 3],
             tcp_identities := (\<lambda>_. None)
               (1 := Some [(''id'', JStr ''p1''), (''name'', JStr ''PluginA'')],
                2 := Some [(''id'', JStr ''p2''), (''name'', JStr ''PluginB'')])\<rparr>"

text \<open>The handshake \<open>{"cmd":"hello","id":"p1","name":"PluginA"}\<close>, its bytes on the
  wire, and a parser that knows this one message.\<close>

definition hello_p1 :: jdict where
  "hello_p1 = [(''cmd'', JStr ''hello''), (''id'', JStr ''p1''), (''name'', JStr ''PluginA'')]"

definition hello_p1_bytes :: bytes where
  "hello_p1_bytes = utf8_encode (dumps_compact frepr_stub (JObj hello_p1))"

definition loads_hello_p1 :: "bytes \<Rightarrow> json option" where
  "loads_hello_p1 b = (if b = hello_p1_bytes then Some (JObj hello_p1) else None)"

text \<open>Native connection 7 has just sent the handshake; browsers 1 and 2 are connected.\<close>

definition bridge_hello :: bridge where
  "bridge_hello =
     bridge0\<lparr>tcp_clients := [7], ws_clients := [1, 2],
             socks := (\<lambda>_. sock0)
               (7 := sock0\<lparr>incoming := [le32 (length hello_p1_bytes), hello_p1_bytes]\<rparr>)\<rparr>"

text \<open>The controller list
  \<open>[{"id":"l_hand"}, {"id":""}, {"id":"r_hand","rotation":{"x":0,"y":0,"z":0}}]\<close>.\<close>

definition controllers_example :: "jdict list" where
  "controllers_example =
     [[(''id'', JStr ''l_hand'')],
      [(''id'', JStr '''')],
      [(''id'', JStr ''r_hand''),
       (''rotation'', JObj [(''x'', JInt 0), (''y'', JInt 0), (''z'', JInt 0)])]]"

text \<open>The browser message
  \<open>{"cmd":"set_controller","id":"p1","name":"PluginA","controllers":[{"id":"l_hand","rotation":{"w":1}},{"id":""}]}\<close>,
  and the same envelope with its second controller, whose id is empty, left out.\<close>

definition set_controller_msg :: jdict where
  "set_controller_msg =
     [(''cmd'', JStr ''set_controller''), (''id'', JStr ''p1''), (''name'', JStr ''PluginA''),
      (''controllers'',
         JArr [JObj [(''id'', JStr ''l_hand''), (''rotation'', JObj [(''w'', JInt 1)])],
               JObj [(''id'', JStr '''')]])]"

definition set_controller_msg_normalized :: jdict where
  "set_controller_msg_normalized =
     [(''cmd'', JStr ''set_controller''), (''id'', JStr ''p1''), (''name'', JStr ''PluginA''),
      (''controllers'',
         JArr [JObj [(''id'', JStr ''l_hand''), (''rotation'', JObj [(''w'', JInt 1)])]])]"

text \<open>One native connection, 1, that registered with
  \<open>{"cmd":"hello","id":1,"name":"A"}\<close>, and the browser envelope
  \<open>{"cmd":"x","id":true,"name":"A"}\<close>.\<close>

definition bridge_numeric_id :: bridge where
  "bridge_numeric_id =
     bridge0\<lparr>tcp_clients := [1],
             tcp_identities := (\<lambda>_. None)(1 := Some [(''id'', JInt 1), (''name'', JStr ''A'')])\<rparr>"

definition envelope_true_id :: jdict where
  "envelope_true_id = [(''cmd'', JStr ''x''), (''id'', JBool True), (''name'', JStr ''A'')]"

section \<open>Properties of the frame codec\<close>

text \<open>
  C1. Frame codec round-trip: for every byte string \<open>p\<close> shorter than \<open>2^32\<close>,
  \<open>send_frame\<close> on a writable socket writes, in a single \<open>sendall\<close>, the 4-byte
  little-endian length of \<open>p\<close> followed by \<open>p\<close>; and \<open>recv_frame\<close> on a socket fed
  exactly those bytes, however the transport segments them, returns \<open>p\<close> and leaves
  nothing unread.
\<close>

theorem frame_roundtrip:
  assumes "length p < 2 ^ 32" and "\<not> broken w" and "\<not> closed w"
  shows "send_frame w p = Inr (w\<lparr>outgoing := outgoing w @ [le32 (length p) @ p]\<rparr>)
       \<and> (\<forall>r. concat (incoming r) = le32 (length p) @ p \<longrightarrow>
             (\<exists>r'. recv_frame r = (Inr p, r') \<and> concat (incoming r') = []))"
proof (intro conjI allI impI)
  show "send_frame w p = Inr (w\<lparr>outgoing := outgoing w @ [le32 (length p) @ p]\<rparr>)"
    using assms by (simp add: send_frame_def struct_pack_I_def sendall_def)
next
  fix r :: sock
  assume D: "concat (incoming r) = le32 (length p) @ p"
  have len: "4 \<le> length (concat (incoming r))"
    unfolding D by (simp add: length_le32)
  have up: "struct_unpack_I (take 4 (concat (incoming r))) = Inr (length p)"
    unfolding D using unpack_le32 [OF assms(1)] by (simp add: length_le32)
  have full: "length p + 4 \<le> length (concat (incoming r))"
    unfolding D by (simp add: length_le32)
  from recv_frame_cases [OF len up] full obtain inc' where
    rf: "recv_frame r = (Inr (take (length p) (drop 4 (concat (incoming r)))), r\<lparr>incoming := inc'\<rparr>)"
    and rest: "concat inc' = drop (length p + 4) (concat (incoming r))"
    by blast
  have "take (length p) (drop 4 (concat (incoming r))) = p"
    unfolding D by (simp add: length_le32)
  moreover have "drop (length p + 4) (concat (incoming r)) = []"
    unfolding D by (simp add: length_le32)
  ultimately show "\<exists>r'. recv_frame r = (Inr p, r') \<and> concat (incoming r') = []"
    using rf rest by simp
qed

theorem frame_roundtrip_witness:
  "length [1, 2, 3 :: byte] < 2 ^ 32
   \<and> send_frame \<lparr>incoming = [], outgoing = [], broken = False, closed = False\<rparr> [1, 2, 3]
       = Inr \<lparr>incoming = [], outgoing = [[3, 0, 0, 0, 1, 2, 3]], broken = False, closed = False\<rparr>
   \<and> fst (recv_frame \<lparr>incoming = [[3, 0], [0, 0, 1], [2, 3]], outgoing = [],
                       broken = False, closed = False\<rparr>) = Inr [1, 2, 3]"
proof -
  let ?w = "\<lparr>incoming = [], outgoing = [], broken = False, closed = False\<rparr>"
  let ?r = "\<lparr>incoming = [[3, 0], [0, 0, 1], [2, 3 :: byte]], outgoing = [],
             broken = False, closed = False\<rparr>"
  have l: "length [1, 2, 3 :: byte] < 2 ^ 32" by simp
  have b: "\<not> broken ?w" and c: "\<not> closed ?w" by simp_all
  note t = frame_roundtrip [OF l b c]
  have fed: "concat (incoming ?r) = le32 (length [1, 2, 3 :: byte]) @ [1, 2, 3]"
    by (simp add: le32_def)
  from t fed obtain r' where "recv_frame ?r = (Inr [1, 2, 3], r')" by blast
  then have "fst (recv_frame ?r) = Inr [1, 2, 3]" by simp
  moreover from t have "send_frame ?w [1, 2, 3]
      = Inr \<lparr>incoming = [], outgoing = [[3, 0, 0, 0, 1, 2, 3]], broken = False, closed = False\<rparr>"
    by (simp add: le32_def)
  ultimately show ?thesis using l by blast
qed

text \<open>
  C2. A stream that is exhausted before \<open>n + 4\<close> bytes were delivered, \<open>n\<close> being the
  decoded length prefix (or before the four bytes of the prefix itself), makes
  \<open>recv_frame\<close> raise \<open>ConnectionError\<close>; and whenever \<open>recv_frame\<close> returns a payload,
  it is the whole payload the prefix announces, never a truncated one.
\<close>

theorem recv_frame_short_stream:
  "((length (concat (incoming conn)) < 4
      \<or> (\<exists>n. struct_unpack_I (take 4 (concat (incoming conn))) = Inr n
             \<and> length (concat (incoming conn)) < n + 4))
     \<longrightarrow> fst (recv_frame conn) = Inl ConnectionError)
   \<and> (\<forall>p conn'. recv_frame conn = (Inr p, conn') \<longrightarrow>
         length p + 4 \<le> length (concat (incoming conn))
         \<and> struct_unpack_I (take 4 (concat (incoming conn))) = Inr (length p)
         \<and> p = take (length p) (drop 4 (concat (incoming conn))))"
proof -
  let ?D = "concat (incoming conn)"
  show ?thesis
  proof (cases "length ?D < 4")
    case True
    from recv_frame_header_short [OF True] show ?thesis using True by auto
  next
    case False
    then have len: "4 \<le> length ?D" by simp
    have "length (take 4 ?D) = 4" using len by simp
    from unpack_total [OF this] obtain n where up: "struct_unpack_I (take 4 ?D) = Inr n"
      by blast
    note rc = recv_frame_cases [OF len up]
    show ?thesis
    proof (cases "length ?D < n + 4")
      case True
      with rc have "fst (recv_frame conn) = Inl ConnectionError" by blast
      then show ?thesis by auto
    next
      case full: False
      with rc obtain inc' where
        rf: "recv_frame conn = (Inr (take n (drop 4 ?D)), conn\<lparr>incoming := inc'\<rparr>)"
        by auto
      have ln: "length (take n (drop 4 ?D)) = n" using full by simp
      show ?thesis
        using False full up ln unfolding rf by auto
    qed
  qed
qed

theorem recv_frame_short_stream_witness:
  "length (concat (incoming (sock0\<lparr>incoming := [[5, 0, 0], [0, 1, 2]]\<rparr>))) < 5 + 4
   \<and> struct_unpack_I (take 4 (concat (incoming (sock0\<lparr>incoming := [[5, 0, 0], [0, 1, 2]]\<rparr>))))
       = Inr 5
   \<and> fst (recv_frame (sock0\<lparr>incoming := [[5, 0, 0], [0, 1, 2]]\<rparr>)) = Inl ConnectionError
   \<and> recv_frame (sock0\<lparr>incoming := [[2, 0, 0], [0, 1, 2, 9]]\<rparr>)
       = (Inr [1, 2], sock0\<lparr>incoming := [[9]]\<rparr>)
   \<and> struct_unpack_I (take 4 (concat (incoming (sock0\<lparr>incoming := [[2, 0, 0], [0, 1, 2, 9]]\<rparr>))))
       = Inr (length [1, 2 :: byte])"
proof -
  let ?s = "sock0\<lparr>incoming := [[5, 0, 0], [0, 1, 2 :: byte]]\<rparr>"
  let ?t = "sock0\<lparr>incoming := [[2, 0, 0], [0, 1, 2, 9 :: byte]]\<rparr>"
  have a: "length (concat (incoming ?s)) < 5 + 4" by simp
  have b: "struct_unpack_I (take 4 (concat (incoming ?s))) = Inr 5"
    by (simp add: struct_unpack_I_def)
  from a b recv_frame_short_stream [of ?s] have c: "fst (recv_frame ?s) = Inl ConnectionError"
    by blast
  have d: "recv_frame ?t = (Inr [1, 2], sock0\<lparr>incoming := [[9]]\<rparr>)"
    by (simp add: recv_frame_def recv_exact_def recv_def struct_unpack_I_def sock0_def)
  from d recv_frame_short_stream [of ?t]
  have e: "struct_unpack_I (take 4 (concat (incoming ?t))) = Inr (length [1, 2 :: byte])"
    by blast
  from a b c d e show ?thesis by blast
qed

section \<open>Properties of payload extraction and command normalisation\<close>

lemma endswith_nonempty: "endswith c ''_result'' \<Longrightarrow> c \<noteq> []"
  by (auto simp: endswith_def)

text \<open>
  C7. The extracted payload is the value of \<open>data\<close> if that key is present and not null,
  else that of \<open>morphs\<close>, else that of \<open>controllers\<close>, under the same condition, else
  none.  For a command name that does not end in \<open>_result\<close> (or is absent),
  \<open>normalize_cmd\<close> returns \<open>read_all_morphs\<close> when a payload was extracted, the envelope
  has a \<open>morphs\<close> key and the command is not already \<open>read_all_morphs\<close> or
  \<open>read_all_morphs_result\<close>; else \<open>read_all_controllers\<close> under the same condition on
  \<open>controllers\<close>; otherwise the command unchanged, the empty string when it is absent.
\<close>

theorem extract_payload_and_normalize_cmd:
  "extract_payload obj =
     (if map_of obj ''data'' \<notin> {None, Some JNull} then the (map_of obj ''data'')
      else if map_of obj ''morphs'' \<notin> {None, Some JNull} then the (map_of obj ''morphs'')
      else if map_of obj ''controllers'' \<notin> {None, Some JNull}
        then the (map_of obj ''controllers'')
      else JNull)
   \<and> ((\<forall>c. cmd = Some c \<longrightarrow> \<not> endswith c ''_result'') \<longrightarrow>
        normalize_cmd cmd obj payload =
          (if payload \<noteq> JNull \<and> ''morphs'' \<in> fst ` set obj
                \<and> cmd \<noteq> Some ''read_all_morphs'' \<and> cmd \<noteq> Some ''read_all_morphs_result''
             then ''read_all_morphs''
           else if payload \<noteq> JNull \<and> ''controllers'' \<in> fst ` set obj
                \<and> cmd \<noteq> Some ''read_all_controllers''
                \<and> cmd \<noteq> Some ''read_all_controllers_result''
             then ''read_all_controllers''
           else (case cmd of None \<Rightarrow> '''' | Some c \<Rightarrow> c)))"
proof (intro conjI impI)
  show "extract_payload obj =
     (if map_of obj ''data'' \<notin> {None, Some JNull} then the (map_of obj ''data'')
      else if map_of obj ''morphs'' \<notin> {None, Some JNull} then the (map_of obj ''morphs'')
      else if map_of obj ''controllers'' \<notin> {None, Some JNull}
        then the (map_of obj ''controllers'')
      else JNull)"
    by (auto simp: extract_payload_def dict_has_def dict_get_def split: option.splits)
next
  assume nores: "\<forall>c. cmd = Some c \<longrightarrow> \<not> endswith c ''_result''"
  have has: "\<And>k. dict_has obj k = (k \<in> fst ` set obj)"
    by (simp add: dict_has_def map_of_eq_None_iff)
  have first: "\<not> (case cmd of None \<Rightarrow> False | Some c \<Rightarrow> c \<noteq> [] \<and> endswith c ''_result'')"
    using nores by (cases cmd) simp_all
  show "normalize_cmd cmd obj payload =
          (if payload \<noteq> JNull \<and> ''morphs'' \<in> fst ` set obj
                \<and> cmd \<noteq> Some ''read_all_morphs'' \<and> cmd \<noteq> Some ''read_all_morphs_result''
             then ''read_all_morphs''
           else if payload \<noteq> JNull \<and> ''controllers'' \<in> fst ` set obj
                \<and> cmd \<noteq> Some ''read_all_controllers''
                \<and> cmd \<noteq> Some ''read_all_controllers_result''
             then ''read_all_controllers''
           else (case cmd of None \<Rightarrow> '''' | Some c \<Rightarrow> c))"
    unfolding normalize_cmd_def has using first by simp
qed

theorem extract_payload_and_normalize_cmd_witness:
  "\<not> endswith ''x'' ''_result''
   \<and> extract_payload [(''cmd'', JStr ''x''), (''morphs'', JArr [JInt 1])] = JArr [JInt 1]
   \<and> normalize_cmd (Some ''x'') [(''cmd'', JStr ''x''), (''morphs'', JArr [JInt 1])]
        (extract_payload [(''cmd'', JStr ''x''), (''morphs'', JArr [JInt 1])]) = ''read_all_morphs''
   \<and> normalize_cmd (Some ''x'') [(''cmd'', JStr ''x''), (''controllers'', JArr [])]
        (extract_payload [(''cmd'', JStr ''x''), (''controllers'', JArr [])]) = ''read_all_controllers''
   \<and> normalize_cmd (Some ''x'') [(''cmd'', JStr ''x'')]
        (extract_payload [(''cmd'', JStr ''x'')]) = ''x''"
proof -
  have n: "\<forall>c. Some ''x'' = Some c \<longrightarrow> \<not> endswith c ''_result''"
    by (simp add: endswith_def)
  have e: "\<not> endswith ''x'' ''_result''" by (simp add: endswith_def)
  note t = extract_payload_and_normalize_cmd [of _ "Some ''x''"]
  have p1: "extract_payload [(''cmd'', JStr ''x''), (''morphs'', JArr [JInt 1])] = JArr [JInt 1]"
    using t [of "[(''cmd'', JStr ''x''), (''morphs'', JArr [JInt 1])]"] by simp
  have p2: "extract_payload [(''cmd'', JStr ''x''), (''controllers'', JArr [])] = JArr []"
    using t [of "[(''cmd'', JStr ''x''), (''controllers'', JArr [])]"] by simp
  have p3: "extract_payload [(''cmd'', JStr ''x'')] = JNull"
    using t [of "[(''cmd'', JStr ''x'')]"] by simp
  have a: "normalize_cmd (Some ''x'') [(''cmd'', JStr ''x''), (''morphs'', JArr [JInt 1])]
        (JArr [JInt 1]) = ''read_all_morphs''"
    using t [of "[(''cmd'', JStr ''x''), (''morphs'', JArr [JInt 1])]" "JArr [JInt 1]"] n
    by simp
  have b: "normalize_cmd (Some ''x'') [(''cmd'', JStr ''x''), (''controllers'', JArr [])]
        (JArr []) = ''read_all_controllers''"
    using t [of "[(''cmd'', JStr ''x''), (''controllers'', JArr [])]" "JArr []"] n
    by simp
  have c: "normalize_cmd (Some ''x'') [(''cmd'', JStr ''x'')] JNull = ''x''"
    using t [of "[(''cmd'', JStr ''x'')]" JNull] n by simp
  show ?thesis unfolding p1 p2 p3 using e a b c by blast
qed

text \<open>
  C8. A command name that ends in \<open>_result\<close> is returned unchanged, whatever the envelope
  and the payload; in particular \<open>read_all_morphs_result\<close> is.
\<close>

theorem normalize_cmd_result_unchanged:
  "(endswith cmd ''_result'' \<longrightarrow> normalize_cmd (Some cmd) obj payload = cmd)
   \<and> normalize_cmd (Some ''read_all_morphs_result'') obj payload = ''read_all_morphs_result''"
proof -
  have g: "endswith c ''_result'' \<Longrightarrow> normalize_cmd (Some c) obj payload = c" for c
    using endswith_nonempty [of c] by (simp add: normalize_cmd_def)
  have "endswith ''read_all_morphs_result'' ''_result''"
    by (simp add: endswith_def)
  from g [OF this] g show ?thesis by blast
qed

theorem normalize_cmd_result_unchanged_witness:
  "endswith ''read_all_controllers_result'' ''_result''
   \<and> normalize_cmd (Some ''read_all_controllers_result'')
        [(''cmd'', JStr ''read_all_controllers_result''), (''morphs'', JArr [])] (JArr [])
      = ''read_all_controllers_result''"
proof -
  have e: "endswith ''read_all_controllers_result'' ''_result''"
    by (simp add: endswith_def)
  with normalize_cmd_result_unchanged
         [of "''read_all_controllers_result''"
             "[(''cmd'', JStr ''read_all_controllers_result''), (''morphs'', JArr [])]" "JArr []"]
  show ?thesis by blast
qed

section \<open>Properties of the broadcast\<close>

lemma broadcast_loop_clients:
  "ws_clients (broadcast_loop st targets data) =
     filter (\<lambda>w. w \<notin> set targets \<or> \<not> ws_broken (wsocks st w)) (ws_clients st)"
proof (induction targets arbitrary: st)
  case Nil
  then show ?case by simp
next
  case (Cons w rest)
  show ?case
  proof (cases "ws_broken (wsocks st w)")
    case True
    let ?st' = "st\<lparr>ws_clients := set_discard (ws_clients st) w\<rparr>"
    have step: "broadcast_loop st (w # rest) data = broadcast_loop ?st' rest data"
      using True by (simp add: ws_send_def)
    show ?thesis
      unfolding step Cons.IH using True
      by (auto simp: set_discard_def removeAll_filter_not_eq intro!: filter_cong)
  next
    case False
    let ?w' = "(wsocks st w)\<lparr>ws_sent := ws_sent (wsocks st w) @ [data]\<rparr>"
    let ?st' = "st\<lparr>wsocks := (wsocks st)(w := ?w')\<rparr>"
    have step: "broadcast_loop st (w # rest) data = broadcast_loop ?st' rest data"
      using False by (simp add: ws_send_def)
    show ?thesis
      unfolding step Cons.IH using False
      by (auto intro!: filter_cong)
  qed
qed

lemma broadcast_loop_wsocks:
  "distinct targets \<Longrightarrow>
   wsocks (broadcast_loop st targets data) w =
     (if w \<in> set targets \<and> \<not> ws_broken (wsocks st w)
      then (wsocks st w)\<lparr>ws_sent := ws_sent (wsocks st w) @ [data]\<rparr>
      else wsocks st w)"
proof (induction targets arbitrary: st)
  case Nil
  then show ?case by simp
next
  case (Cons x rest)
  from Cons.prems have d: "distinct rest" and nx: "x \<notin> set rest" by simp_all
  show ?case
  proof (cases "ws_broken (wsocks st x)")
    case True
    let ?st' = "st\<lparr>ws_clients := set_discard (ws_clients st) x\<rparr>"
    have step: "broadcast_loop st (x # rest) data = broadcast_loop ?st' rest data"
      using True by (simp add: ws_send_def)
    show ?thesis
      unfolding step Cons.IH [OF d] using True nx by auto
  next
    case False
    let ?w' = "(wsocks st x)\<lparr>ws_sent := ws_sent (wsocks st x) @ [data]\<rparr>"
    let ?st' = "st\<lparr>wsocks := (wsocks st)(x := ?w')\<rparr>"
    have step: "broadcast_loop st (x # rest) data = broadcast_loop ?st' rest data"
      using False by (simp add: ws_send_def)
    show ?thesis
      unfolding step Cons.IH [OF d] using False nx by auto
  qed
qed

lemma broadcast_loop_rest:
  "tcp_clients (broadcast_loop st targets data) = tcp_clients st
   \<and> tcp_identities (broadcast_loop st targets data) = tcp_identities st
   \<and> ws_identities (broadcast_loop st targets data) = ws_identities st
   \<and> socks (broadcast_loop st targets data) = socks st
   \<and> scheduled (broadcast_loop st targets data) = scheduled st"
  by (induction targets arbitrary: st) (auto split: sum.splits)

text \<open>
  C9. A broadcast removes from the live set exactly the browser connections whose send
  fails, and every other connection of the set is sent the message, whatever failed
  before it or after it in the iteration.  This holds for \<open>broadcast\<close> of \<open>app.py\<close> and
  for \<open>broadcast\<close> of \<open>ws_helpers.py\<close>.
\<close>

theorem broadcast_failure_isolated:
  assumes "distinct (ws_clients st)"
  shows "ws_clients (broadcast frepr st m)
           = filter (\<lambda>w. \<not> ws_broken (wsocks st w)) (ws_clients st)
       \<and> (\<forall>w \<in> set (ws_clients st). \<not> ws_broken (wsocks st w) \<longrightarrow>
             ws_sent (wsocks (broadcast frepr st m) w)
               = ws_sent (wsocks st w) @ [dumps_default frepr m])
       \<and> ws_clients (ws_helpers_broadcast frepr st m)
           = filter (\<lambda>w. \<not> ws_broken (wsocks st w)) (ws_clients st)
       \<and> (\<forall>w \<in> set (ws_clients st). \<not> ws_broken (wsocks st w) \<longrightarrow>
             ws_sent (wsocks (ws_helpers_broadcast frepr st m) w)
               = ws_sent (wsocks st w) @ [dumps_compact frepr m])"
proof -
  have c: "ws_clients (broadcast_loop st (ws_clients st) data)
             = filter (\<lambda>w. \<not> ws_broken (wsocks st w)) (ws_clients st)" for data
    unfolding broadcast_loop_clients by (auto intro!: filter_cong)
  have s: "\<forall>w \<in> set (ws_clients st). \<not> ws_broken (wsocks st w) \<longrightarrow>
             ws_sent (wsocks (broadcast_loop st (ws_clients st) data) w)
               = ws_sent (wsocks st w) @ [data]" for data
    using broadcast_loop_wsocks [OF assms, of st data] by simp
  show ?thesis
    unfolding broadcast_def ws_helpers_broadcast_def using c s by blast
qed

theorem broadcast_failure_isolated_witness:
  "distinct (ws_clients (bridge0\<lparr>ws_clients := [1, 2, 3],
                wsocks := (\<lambda>_. wsock0)(2 := wsock0\<lparr>ws_broken := True\<rparr>)\<rparr>))
   \<and> ws_clients (broadcast frepr_stub (bridge0\<lparr>ws_clients := [1, 2, 3],
                wsocks := (\<lambda>_. wsock0)(2 := wsock0\<lparr>ws_broken := True\<rparr>)\<rparr>) (JInt 7)) = [1, 3]
   \<and> ws_sent (wsocks (broadcast frepr_stub (bridge0\<lparr>ws_clients := [1, 2, 3],
                wsocks := (\<lambda>_. wsock0)(2 := wsock0\<lparr>ws_broken := True\<rparr>)\<rparr>) (JInt 7)) 3) = [''7'']"
proof -
  let ?st = "bridge0\<lparr>ws_clients := [1, 2, 3],
                wsocks := (\<lambda>_. wsock0)(2 := wsock0\<lparr>ws_broken := True\<rparr>)\<rparr>"
  have d: "distinct (ws_clients ?st)" by simp
  have e: "dumps_default frepr_stub (JInt 7) = ''7''"
    by (simp add: dumps_default_def int_str_def)
  from broadcast_failure_isolated [OF d, of frepr_stub "JInt 7"]
  show ?thesis
    unfolding e by (simp add: wsock0_def)
qed

section \<open>Properties of the routing\<close>

lemma send_frame_result:
  "send_frame s wire =
     (if length wire < 2 ^ 32 \<and> \<not> broken s \<and> \<not> closed s
      then Inr (s\<lparr>outgoing := outgoing s @ [le32 (length wire) @ wire]\<rparr>)
      else Inl (if length wire < 2 ^ 32 then OSError else StructError))"
  by (simp add: send_frame_def struct_pack_I_def sendall_def)

lemma forward_loop_rest:
  "tcp_clients (forward_loop st targets tid tname wire) = tcp_clients st
   \<and> tcp_identities (forward_loop st targets tid tname wire) = tcp_identities st
   \<and> ws_clients (forward_loop st targets tid tname wire) = ws_clients st
   \<and> ws_identities (forward_loop st targets tid tname wire) = ws_identities st
   \<and> wsocks (forward_loop st targets tid tname wire) = wsocks st
   \<and> scheduled (forward_loop st targets tid tname wire) = scheduled st"
  by (induction targets arbitrary: st) (auto split: option.splits sum.splits)

lemma forward_loop_socks:
  "distinct targets \<Longrightarrow>
   socks (forward_loop st targets tid tname wire) c =
     (if c \<in> set targets
         \<and> (\<exists>ident. tcp_identities st c = Some ident \<and> ident \<noteq> []
               \<and> py_eq (dict_get ident ''id'') tid \<and> py_eq (dict_get ident ''name'') tname)
         \<and> length wire < 2 ^ 32 \<and> \<not> broken (socks st c) \<and> \<not> closed (socks st c)
      then (socks st c)\<lparr>outgoing := outgoing (socks st c) @ [le32 (length wire) @ wire]\<rparr>
      else socks st c)"
proof (induction targets arbitrary: st)
  case Nil
  then show ?case by simp
next
  case (Cons x rest)
  from Cons.prems have d: "distinct rest" and nx: "x \<notin> set rest" by simp_all
  let ?m = "\<exists>ident. tcp_identities st x = Some ident \<and> ident \<noteq> []
               \<and> py_eq (dict_get ident ''id'') tid \<and> py_eq (dict_get ident ''name'') tname"
  let ?ok = "length wire < 2 ^ 32 \<and> \<not> broken (socks st x) \<and> \<not> closed (socks st x)"
  show ?case
  proof (cases "?m \<and> ?ok")
    case True
    let ?s' = "(socks st x)\<lparr>outgoing := outgoing (socks st x) @ [le32 (length wire) @ wire]\<rparr>"
    let ?st' = "st\<lparr>socks := (socks st)(x := ?s')\<rparr>"
    have step: "forward_loop st (x # rest) tid tname wire = forward_loop ?st' rest tid tname wire"
      using True by (auto simp: send_frame_result)
    show ?thesis
      unfolding step Cons.IH [OF d] using True nx by auto
  next
    case False
    have step: "forward_loop st (x # rest) tid tname wire = forward_loop st rest tid tname wire"
      using False by (auto simp: send_frame_result split: option.splits)
    show ?thesis
      unfolding step Cons.IH [OF d] using False nx by auto
  qed
qed

lemma py_eq_str: "py_eq (JStr s) y \<longleftrightarrow> y = JStr s"
  by (cases y) auto

lemma py_eq_str_right: "py_eq x (JStr s) \<longleftrightarrow> x = JStr s"
  by (cases x) auto


text \<open>
  C3 (as amended).  A browser message that parsed to an envelope whose command is not
  \<open>hello\<close> is sent, framed, to every native connection of the live set whose registered
  \<open>id\<close> and \<open>name\<close> are each equal to the envelope's under the operator \<open>==\<close>, and
  the socket of every other connection is left as it was; a connection without
  registered identity is never written to.  The operator \<open>==\<close> is equality of values
  whenever one of the two sides is a string; between \<open>bool\<close>, \<open>int\<close> and \<open>float\<close> it
  compares the numeric value.  (A matching connection takes the frame unless its socket
  refuses the write.)
\<close>

theorem forward_to_matching_identities:
  assumes "distinct (tcp_clients st)"
    and "\<not> py_eq (dict_get kvs ''cmd'') (JStr ''hello'')"
  shows "\<exists>st'. ws_dispatch frepr st w (JObj kvs) = Continue st'
      \<and> (\<forall>c. socks st' c =
            (if c \<in> set (tcp_clients st)
                \<and> (\<exists>ident. tcp_identities st c = Some ident \<and> ident \<noteq> []
                      \<and> py_eq (dict_get ident ''id'') (dict_get kvs ''id'')
                      \<and> py_eq (dict_get ident ''name'') (dict_get kvs ''name''))
                \<and> length (utf8_encode (dumps_default frepr (JObj kvs))) < 2 ^ 32
                \<and> \<not> broken (socks st c) \<and> \<not> closed (socks st c)
             then (socks st c)\<lparr>outgoing := outgoing (socks st c)
                    @ [le32 (length (utf8_encode (dumps_default frepr (JObj kvs))))
                       @ utf8_encode (dumps_default frepr (JObj kvs))]\<rparr>
             else socks st c))
      \<and> (\<forall>c. tcp_identities st c = None \<longrightarrow> socks st' c = socks st c)
      \<and> tcp_clients st' = tcp_clients st \<and> tcp_identities st' = tcp_identities st
      \<and> (\<forall>s y. py_eq (JStr s) y \<longleftrightarrow> y = JStr s)
      \<and> (\<forall>s y. py_eq y (JStr s) \<longleftrightarrow> y = JStr s)"
proof -
  let ?wire = "utf8_encode (dumps_default frepr (JObj kvs))"
  let ?st' = "forward_loop st (tcp_clients st) (dict_get kvs ''id'') (dict_get kvs ''name'') ?wire"
  have d: "ws_dispatch frepr st w (JObj kvs) = Continue ?st'"
    using assms(2) by (simp add: ws_dispatch_def)
  note fs = forward_loop_socks [OF assms(1), of st "dict_get kvs ''id''" "dict_get kvs ''name''" ?wire]
  have none: "\<forall>c. tcp_identities st c = None \<longrightarrow> socks ?st' c = socks st c"
    unfolding fs by simp
  have rest: "tcp_clients ?st' = tcp_clients st \<and> tcp_identities ?st' = tcp_identities st"
    using forward_loop_rest by blast
  show ?thesis
    using d fs none rest py_eq_str py_eq_str_right by blast
qed

theorem forward_to_matching_identities_witness:
  "distinct (tcp_clients bridge_plugins)
   \<and> \<not> py_eq (dict_get [(''cmd'', JStr ''x''), (''id'', JStr ''p1''), (''name'', JStr ''PluginA'')]
               ''cmd'') (JStr ''hello'')
   \<and> (\<exists>st'. ws_dispatch frepr_stub bridge_plugins 0
                (JObj [(''cmd'', JStr ''x''), (''id'', JStr ''p1''), (''name'', JStr ''PluginA'')])
              = Continue st'
          \<and> outgoing (socks st' 1)
              = [le32 (length (utf8_encode (dumps_default frepr_stub
                    (JObj [(''cmd'', JStr ''x''), (''id'', JStr ''p1''), (''name'', JStr ''PluginA'')]))))
                 @ utf8_encode (dumps_default frepr_stub
                    (JObj [(''cmd'', JStr ''x''), (''id'', JStr ''p1''), (''name'', JStr ''PluginA'')]))]
          \<and> socks st' 2 = sock0 \<and> socks st' 3 = sock0)"
proof -
  let ?kvs = "[(''cmd'', JStr ''x''), (''id'', JStr ''p1''), (''name'', JStr ''PluginA'')]"
  have d: "distinct (tcp_clients bridge_plugins)"
    by (simp add: bridge_plugins_def bridge0_def)
  have h: "\<not> py_eq (dict_get ?kvs ''cmd'') (JStr ''hello'')"
    by (simp add: dict_get_def)
  have l: "length (utf8_encode (dumps_default frepr_stub (JObj ?kvs))) < 2 ^ 32"
    by (simp add: utf8_encode_def dumps_default_def quote_str_def escape_char_def)
  from forward_to_matching_identities [OF d h, of frepr_stub 0]
  obtain st' where c: "ws_dispatch frepr_stub bridge_plugins 0 (JObj ?kvs) = Continue st'"
    and s: "\<And>c. socks st' c =
            (if c \<in> set (tcp_clients bridge_plugins)
                \<and> (\<exists>ident. tcp_identities bridge_plugins c = Some ident \<and> ident \<noteq> []
                      \<and> py_eq (dict_get ident ''id'') (dict_get ?kvs ''id'')
                      \<and> py_eq (dict_get ident ''name'') (dict_get ?kvs ''name''))
                \<and> length (utf8_encode (dumps_default frepr_stub (JObj ?kvs))) < 2 ^ 32
                \<and> \<not> broken (socks bridge_plugins c) \<and> \<not> closed (socks bridge_plugins c)
             then (socks bridge_plugins c)\<lparr>outgoing := outgoing (socks bridge_plugins c)
                    @ [le32 (length (utf8_encode (dumps_default frepr_stub (JObj ?kvs))))
                       @ utf8_encode (dumps_default frepr_stub (JObj ?kvs))]\<rparr>
             else socks bridge_plugins c)"
    by blast
  have s1: "outgoing (socks st' 1)
              = [le32 (length (utf8_encode (dumps_default frepr_stub (JObj ?kvs))))
                 @ utf8_encode (dumps_default frepr_stub (JObj ?kvs))]"
    unfolding s [of 1] using l
    by (simp add: bridge_plugins_def bridge0_def sock0_def dict_get_def)
  have s2: "socks st' 2 = sock0"
    unfolding s [of 2] by (simp add: bridge_plugins_def bridge0_def dict_get_def)
  have s3: "socks st' 3 = sock0"
    unfolding s [of 3] by (simp add: bridge_plugins_def bridge0_def)
  from d h c s1 s2 s3 show ?thesis by blast
qed


text \<open>
  C3 as stated fails: a native connection registered with the number \<open>1\<close> as its id is
  sent an envelope addressed to the id \<open>true\<close>, a different value, because \<open>1 == True\<close>.
\<close>

theorem forward_to_numerically_equal_identity:
  "JInt 1 \<noteq> JBool True
   \<and> tcp_identities bridge_numeric_id 1 = Some [(''id'', JInt 1), (''name'', JStr ''A'')]
   \<and> dict_get envelope_true_id ''id'' = JBool True
   \<and> ws_dispatch frepr_stub bridge_numeric_id 0 (JObj envelope_true_id)
       = Continue (forward_loop bridge_numeric_id [1] (JBool True) (JStr ''A'')
                     (utf8_encode (dumps_default frepr_stub (JObj envelope_true_id))))
   \<and> outgoing (socks (forward_loop bridge_numeric_id [1] (JBool True) (JStr ''A'')
                         (utf8_encode (dumps_default frepr_stub (JObj envelope_true_id)))) 1)
       = [le32 (length (utf8_encode (dumps_default frepr_stub (JObj envelope_true_id))))
          @ utf8_encode (dumps_default frepr_stub (JObj envelope_true_id))]"
proof -
  let ?W = "utf8_encode (dumps_default frepr_stub (JObj envelope_true_id))"
  have ne: "JInt 1 \<noteq> JBool True" by simp
  have ti: "tcp_identities bridge_numeric_id 1 = Some [(''id'', JInt 1), (''name'', JStr ''A'')]"
    by (simp add: bridge_numeric_id_def bridge0_def)
  have ei: "dict_get envelope_true_id ''id'' = JBool True"
    by (simp add: envelope_true_id_def dict_get_def)
  have lw: "length ?W < 2 ^ 32"
    by (simp add: envelope_true_id_def utf8_encode_def dumps_default_def quote_str_def
          escape_char_def)
  have tc: "tcp_clients bridge_numeric_id = [1]"
    by (simp add: bridge_numeric_id_def bridge0_def)
  have d: "distinct [1 :: conn]" by simp
  have fw0: "ws_dispatch frepr_stub bridge_numeric_id 0 (JObj envelope_true_id)
      = Continue (forward_loop bridge_numeric_id (tcp_clients bridge_numeric_id)
                    (JBool True) (JStr ''A'') ?W)"
    by (simp add: ws_dispatch_def envelope_true_id_def dict_get_def)
  have fw: "ws_dispatch frepr_stub bridge_numeric_id 0 (JObj envelope_true_id)
      = Continue (forward_loop bridge_numeric_id [1] (JBool True) (JStr ''A'') ?W)"
    using fw0 unfolding tc .
  have o: "outgoing (socks (forward_loop bridge_numeric_id [1] (JBool True) (JStr ''A'') ?W) 1)
             = [le32 (length ?W) @ ?W]"
    unfolding forward_loop_socks [OF d] using lw
    by (simp add: bridge_numeric_id_def bridge0_def sock0_def dict_get_def)
  from ne ti ei fw o show ?thesis by blast
qed

section \<open>Properties of the native connection handler\<close>

lemma recv_frame_next:
  assumes D: "concat (incoming s) = le32 (length f) @ f @ rest"
    and l: "length f < 2 ^ 32"
  shows "\<exists>inc'. recv_frame s = (Inr f, s\<lparr>incoming := inc'\<rparr>) \<and> concat inc' = rest"
proof -
  have len: "4 \<le> length (concat (incoming s))"
    unfolding D by (simp add: length_le32)
  have up: "struct_unpack_I (take 4 (concat (incoming s))) = Inr (length f)"
    unfolding D using unpack_le32 [OF l] by (simp add: length_le32)
  have full: "length f + 4 \<le> length (concat (incoming s))"
    unfolding D by (simp add: length_le32)
  from recv_frame_cases [OF len up] full obtain inc' where
    rf: "recv_frame s = (Inr (take (length f) (drop 4 (concat (incoming s)))), s\<lparr>incoming := inc'\<rparr>)"
    and r: "concat inc' = drop (length f + 4) (concat (incoming s))"
    by blast
  have "take (length f) (drop 4 (concat (incoming s))) = f"
    unfolding D by (simp add: length_le32)
  moreover have "drop (length f + 4) (concat (incoming s)) = rest"
    unfolding D by (simp add: length_le32)
  ultimately show ?thesis using rf r by auto
qed

text \<open>
  C10. When the next frame on a native connection is a well-formed zero-length frame,
  \<open>recv_frame\<close> returns the empty byte string without raising, and
  \<open>handle_tcp_client\<close> leaves its loop without an exception: the connection is removed
  from the live set, its identity is forgotten, its socket is closed, and nothing was
  written to it or submitted for broadcast, whatever \<open>json.loads\<close> would have made of the
  empty payload and whatever frames follow.
\<close>

theorem zero_length_frame_disconnects:
  assumes "concat (incoming (socks st c)) = [0, 0, 0, 0] @ rest"
  shows "fst (recv_frame (socks st c)) = Inr []
       \<and> (\<exists>st'. handle_tcp_client loads frepr st c = (None, st')
              \<and> tcp_clients st' = removeAll c (tcp_clients st)
              \<and> tcp_identities st' c = None
              \<and> closed (socks st' c)
              \<and> outgoing (socks st' c) = outgoing (socks st c)
              \<and> concat (incoming (socks st' c)) = rest
              \<and> scheduled st' = scheduled st
              \<and> wsocks st' = wsocks st)"
proof -
  have z: "le32 (length ([] :: bytes)) = [0, 0, 0, 0]" by (simp add: le32_def)
  let ?st0 = "st\<lparr>tcp_clients := set_add (tcp_clients st) c\<rparr>"
  have "concat (incoming (socks ?st0 c)) = le32 (length ([] :: bytes)) @ [] @ rest"
    unfolding z using assms by simp
  from recv_frame_next [OF this] obtain inc' where
    rf: "recv_frame (socks st c) = (Inr [], (socks st c)\<lparr>incoming := inc'\<rparr>)"
    and r: "concat inc' = rest" by auto
  let ?st1 = "?st0\<lparr>socks := (socks ?st0)(c := (socks st c)\<lparr>incoming := inc'\<rparr>)\<rparr>"
  have it: "tcp_iteration loads frepr ?st0 c = Break ?st1"
    using rf by (simp add: tcp_iteration_def)
  have lp: "tcp_loop loads frepr ?st0 c = (None, ?st1)"
    by (subst tcp_loop.simps) (simp add: it)
  show ?thesis
    unfolding handle_tcp_client_def lp
    using rf r by (simp add: set_discard_def set_add_def)
qed

theorem zero_length_frame_disconnects_witness:
  "concat (incoming (socks (bridge_plugins\<lparr>socks := (\<lambda>_. sock0)
              (1 := sock0\<lparr>incoming := [[0, 0], [0, 0, 2, 0, 0, 0, 123, 125]]\<rparr>)\<rparr>) 1))
     = [0, 0, 0, 0] @ [2, 0, 0, 0, 123, 125]
   \<and> (\<exists>st'. handle_tcp_client loads_stub frepr_stub
               (bridge_plugins\<lparr>socks := (\<lambda>_. sock0)
                  (1 := sock0\<lparr>incoming := [[0, 0], [0, 0, 2, 0, 0, 0, 123, 125]]\<rparr>)\<rparr>) 1 = (None, st')
          \<and> tcp_clients st' = [2, 3] \<and> tcp_identities st' 1 = None
          \<and> closed (socks st' 1) \<and> scheduled st' = [])"
proof -
  let ?st = "bridge_plugins\<lparr>socks := (\<lambda>_. sock0)
              (1 := sock0\<lparr>incoming := [[0, 0], [0, 0, 2, 0, 0, 0, 123, 125]]\<rparr>)\<rparr>"
  have a: "concat (incoming (socks ?st 1)) = [0, 0, 0, 0] @ [2, 0, 0, 0, 123, 125]"
    by (simp add: sock0_def)
  from zero_length_frame_disconnects [OF a, of loads_stub frepr_stub]
  obtain st' where h: "handle_tcp_client loads_stub frepr_stub ?st 1 = (None, st')"
    and p: "tcp_identities st' 1 = None" "closed (socks st' 1)" "scheduled st' = scheduled ?st"
    and t: "tcp_clients st' = removeAll 1 (tcp_clients ?st)"
    by blast
  have tc: "tcp_clients st' = [2, 3]"
    unfolding t by (simp add: bridge_plugins_def bridge0_def)
  have sc: "scheduled st' = []"
    unfolding p(3) by (simp add: bridge_plugins_def bridge0_def)
  from a h p(1,2) tc sc show ?thesis by blast
qed


text \<open>The acknowledgement envelope \<open>{cmd:"acknowledge", ack:"hello", id, name}\<close>.\<close>

definition hello_ack :: "json \<Rightarrow> json \<Rightarrow> json" where
  "hello_ack client_id client_name =
     JObj [(''cmd'', JStr ''acknowledge''), (''ack'', JStr ''hello''),
           (''id'', client_id), (''name'', client_name)]"

text \<open>
  C4. When the next frame on a native connection parses to a \<open>hello\<close> envelope with
  \<open>id\<close> and \<open>name\<close>, and the connection accepts the write, the manager registers
  \<open>{id, name}\<close> as the identity of the connection, writes to the same connection the
  frame of the acknowledgement envelope, and submits the broadcast of that same envelope;
  once the event loop runs it (no other broadcast pending), every live browser
  connection whose send succeeds has been sent the acknowledgement.
\<close>

theorem hello_acknowledged_and_broadcast:
  assumes "concat (incoming (socks st c)) = le32 (length frame) @ frame @ rest"
    and "length frame < 2 ^ 32" and "frame \<noteq> []"
    and "loads frame = Some (JObj obj)"
    and "dict_get obj ''cmd'' = JStr ''hello''"
    and "map_of obj ''id'' = Some i" and "map_of obj ''name'' = Some n"
    and "\<not> broken (socks st c)" and "\<not> closed (socks st c)"
    and "length (utf8_encode (dumps_default frepr (hello_ack i n))) < 2 ^ 32"
  shows "\<exists>st'. tcp_iteration loads frepr st c = Continue st'
      \<and> tcp_identities st' c = Some [(''id'', i), (''name'', n)]
      \<and> outgoing (socks st' c)
          = outgoing (socks st c)
            @ [le32 (length (utf8_encode (dumps_default frepr (hello_ack i n))))
               @ utf8_encode (dumps_default frepr (hello_ack i n))]
      \<and> scheduled st' = scheduled st @ [hello_ack i n]
      \<and> (scheduled st = [] \<and> distinct (ws_clients st) \<longrightarrow>
           (\<forall>b \<in> set (ws_clients st). \<not> ws_broken (wsocks st b) \<longrightarrow>
              ws_sent (wsocks (run_scheduled frepr st') b)
                = ws_sent (wsocks st b) @ [dumps_default frepr (hello_ack i n)]))"
proof -
  let ?ack = "hello_ack i n"
  let ?W = "utf8_encode (dumps_default frepr ?ack)"
  from recv_frame_next [OF assms(1,2)] obtain inc' where
    rf: "recv_frame (socks st c) = (Inr frame, (socks st c)\<lparr>incoming := inc'\<rparr>)"
    by blast
  let ?s1 = "(socks st c)\<lparr>incoming := inc'\<rparr>"
  let ?s2 = "?s1\<lparr>outgoing := outgoing ?s1 @ [le32 (length ?W) @ ?W]\<rparr>"
  let ?st' = "st\<lparr>socks := (socks st)(c := ?s2),
                 tcp_identities := (tcp_identities st)(c := Some [(''id'', i), (''name'', n)]),
                 scheduled := scheduled st @ [?ack]\<rparr>"
  have sf: "send_frame ?s1 ?W = Inr ?s2"
    using assms(8,9,10) by (simp add: send_frame_result)
  have it: "tcp_iteration loads frepr st c = Continue ?st'"
    using rf assms(3,4,5,6,7) sf
    by (simp add: tcp_iteration_def dict_get_default_def hello_ack_def Let_def)
  have b: "scheduled st = [] \<and> distinct (ws_clients st) \<longrightarrow>
           (\<forall>b \<in> set (ws_clients st). \<not> ws_broken (wsocks st b) \<longrightarrow>
              ws_sent (wsocks (run_scheduled frepr ?st') b)
                = ws_sent (wsocks st b) @ [dumps_default frepr ?ack])"
  proof (intro impI ballI, elim conjE)
    fix b
    assume e: "scheduled st = []" and d: "distinct (ws_clients st)"
      and m: "b \<in> set (ws_clients st)" and h: "\<not> ws_broken (wsocks st b)"
    let ?q = "?st'\<lparr>scheduled := []\<rparr>"
    have rs: "run_scheduled frepr ?st' = broadcast_loop ?q (ws_clients st) (dumps_default frepr ?ack)"
      using e by (simp add: run_scheduled_def broadcast_def)
    have dq: "distinct (ws_clients st)" by (rule d)
    show "ws_sent (wsocks (run_scheduled frepr ?st') b)
            = ws_sent (wsocks st b) @ [dumps_default frepr ?ack]"
      unfolding rs broadcast_loop_wsocks [OF dq] using m h by simp
  qed
  have "tcp_identities ?st' c = Some [(''id'', i), (''name'', n)]" by simp
  moreover have "outgoing (socks ?st' c) = outgoing (socks st c) @ [le32 (length ?W) @ ?W]"
    by simp
  moreover have "scheduled ?st' = scheduled st @ [?ack]" by simp
  ultimately show ?thesis using it b by blast
qed

theorem hello_acknowledged_and_broadcast_witness:
  "concat (incoming (socks bridge_hello 7)) = le32 (length hello_p1_bytes) @ hello_p1_bytes @ []
   \<and> hello_p1_bytes \<noteq> []
   \<and> loads_hello_p1 hello_p1_bytes = Some (JObj hello_p1)
   \<and> dict_get hello_p1 ''cmd'' = JStr ''hello''
   \<and> (\<exists>st'. tcp_iteration loads_hello_p1 frepr_stub bridge_hello 7 = Continue st'
        \<and> tcp_identities st' 7 = Some [(''id'', JStr ''p1''), (''name'', JStr ''PluginA'')]
        \<and> outgoing (socks st' 7)
            = [le32 (length (utf8_encode (dumps_default frepr_stub
                       (hello_ack (JStr ''p1'') (JStr ''PluginA'')))))
               @ utf8_encode (dumps_default frepr_stub (hello_ack (JStr ''p1'') (JStr ''PluginA'')))]
        \<and> ws_sent (wsocks (run_scheduled frepr_stub st') 1)
            = [dumps_default frepr_stub (hello_ack (JStr ''p1'') (JStr ''PluginA''))]
        \<and> ws_sent (wsocks (run_scheduled frepr_stub st') 2)
            = [dumps_default frepr_stub (hello_ack (JStr ''p1'') (JStr ''PluginA''))])"
proof -
  let ?ack = "hello_ack (JStr ''p1'') (JStr ''PluginA'')"
  have a1: "concat (incoming (socks bridge_hello 7))
              = le32 (length hello_p1_bytes) @ hello_p1_bytes @ []"
    by (simp add: bridge_hello_def bridge0_def sock0_def)
  have a2: "length hello_p1_bytes < 2 ^ 32"
    by (simp add: hello_p1_bytes_def hello_p1_def utf8_encode_def dumps_compact_def
          quote_str_def escape_char_def)
  have a3: "hello_p1_bytes \<noteq> []"
    by (simp add: hello_p1_bytes_def hello_p1_def utf8_encode_def dumps_compact_def
          quote_str_def escape_char_def)
  have a4: "loads_hello_p1 hello_p1_bytes = Some (JObj hello_p1)"
    by (simp add: loads_hello_p1_def)
  have a5: "dict_get hello_p1 ''cmd'' = JStr ''hello''"
    by (simp add: dict_get_def hello_p1_def)
  have a6: "map_of hello_p1 ''id'' = Some (JStr ''p1'')"
    and a7: "map_of hello_p1 ''name'' = Some (JStr ''PluginA'')"
    by (simp_all add: hello_p1_def)
  have a8: "\<not> broken (socks bridge_hello 7)" and a9: "\<not> closed (socks bridge_hello 7)"
    by (simp_all add: bridge_hello_def bridge0_def sock0_def)
  have a10: "length (utf8_encode (dumps_default frepr_stub ?ack)) < 2 ^ 32"
    by (simp add: hello_ack_def utf8_encode_def dumps_default_def quote_str_def escape_char_def)
  from hello_acknowledged_and_broadcast
         [where st = bridge_hello and c = 7 and frame = hello_p1_bytes and rest = "[]"
            and loads = loads_hello_p1 and obj = hello_p1 and frepr = frepr_stub
            and i = "JStr ''p1''" and n = "JStr ''PluginA''",
          OF a1 a2 a3 a4 a5 a6 a7 a8 a9 a10]
  obtain st' where
    t: "tcp_iteration loads_hello_p1 frepr_stub bridge_hello 7 = Continue st'"
      "tcp_identities st' 7 = Some [(''id'', JStr ''p1''), (''name'', JStr ''PluginA'')]"
      "outgoing (socks st' 7) = outgoing (socks bridge_hello 7)
            @ [le32 (length (utf8_encode (dumps_default frepr_stub ?ack)))
               @ utf8_encode (dumps_default frepr_stub ?ack)]"
    and b: "scheduled bridge_hello = [] \<and> distinct (ws_clients bridge_hello) \<longrightarrow>
           (\<forall>b \<in> set (ws_clients bridge_hello). \<not> ws_broken (wsocks bridge_hello b) \<longrightarrow>
              ws_sent (wsocks (run_scheduled frepr_stub st') b)
                = ws_sent (wsocks bridge_hello b) @ [dumps_default frepr_stub ?ack])"
    by blast
  have o: "outgoing (socks st' 7)
      = [le32 (length (utf8_encode (dumps_default frepr_stub ?ack)))
               @ utf8_encode (dumps_default frepr_stub ?ack)]"
    unfolding t(3) by (simp add: bridge_hello_def bridge0_def sock0_def)
  have w1: "ws_sent (wsocks (run_scheduled frepr_stub st') 1) = [dumps_default frepr_stub ?ack]"
    and w2: "ws_sent (wsocks (run_scheduled frepr_stub st') 2) = [dumps_default frepr_stub ?ack]"
    using b by (simp_all add: bridge_hello_def bridge0_def wsock0_def)
  from a1 a3 a4 a5 t(1,2) o w1 w2 show ?thesis by blast
qed

section \<open>Properties of controller normalisation\<close>

lemma map_of_dict_set:
  "map_of (dict_set d k v) k' = (if k' = k then Some v else map_of d k')"
  by (induction d) auto

lemma dict_get_dict_set:
  "dict_get (dict_set d k v) k' = (if k' = k then v else dict_get d k')"
  by (simp add: dict_get_def map_of_dict_set)

lemma dropWhile_all_iff:
  "(\<forall>x \<in> set (dropWhile P s). P x) \<longleftrightarrow> dropWhile P s = []"
proof
  assume a: "\<forall>x \<in> set (dropWhile P s). P x"
  show "dropWhile P s = []"
  proof (rule ccontr)
    assume n: "dropWhile P s \<noteq> []"
    then have "\<not> P (hd (dropWhile P s))" by (rule hd_dropWhile)
    moreover from n have "hd (dropWhile P s) \<in> set (dropWhile P s)" by simp
    ultimately show False using a by blast
  qed
next
  assume "dropWhile P s = []"
  then show "\<forall>x \<in> set (dropWhile P s). P x" by (auto dest: set_dropWhileD)
qed

lemma strip_empty_iff: "strip s = [] \<longleftrightarrow> list_all is_space s"
proof -
  have "strip s = [] \<longleftrightarrow> (\<forall>x \<in> set (dropWhile is_space s). is_space x)"
    by (simp add: strip_def dropWhile_eq_Nil_conv)
  also have "\<dots> \<longleftrightarrow> dropWhile is_space s = []"
    by (rule dropWhile_all_iff)
  also have "\<dots> \<longleftrightarrow> (\<forall>c \<in> set s. is_space c)"
    by (simp add: dropWhile_eq_Nil_conv)
  finally show ?thesis by (simp add: list_all_iff)
qed

text \<open>The terms of the property: an id is dropped when it is falsy (missing or \<open>null\<close>,
  \<open>false\<close>, zero, an empty string, list or object) or a string of white space only; the
  rotation of an entry is the mapping under \<open>rotation\<close>, empty when there is none; and
  an output entry is the normalised form of an input entry.\<close>

definition id_dropped :: "json \<Rightarrow> bool" where
  "id_dropped cid =
     (\<not> py_truthy cid \<or> (case cid of JStr s \<Rightarrow> list_all is_space s | _ \<Rightarrow> False))"

definition rotation_of :: "jdict \<Rightarrow> jdict" where
  "rotation_of c = (case dict_get c ''rotation'' of JObj r \<Rightarrow> r | _ \<Rightarrow> [])"

definition rotation_ok :: "jdict \<Rightarrow> bool" where
  "rotation_ok c = (case dict_get c ''rotation'' of JObj r \<Rightarrow> True | v \<Rightarrow> \<not> py_truthy v)"

definition normalized_from :: "(json \<Rightarrow> string) \<Rightarrow> jdict \<Rightarrow> jdict \<Rightarrow> bool" where
  "normalized_from repr n c =
     (map_of n ''id'' = Some (JStr (py_str repr (dict_get c ''id'')))
      \<and> (\<exists>rot. map_of n ''rotation'' = Some (JObj rot)
            \<and> map_of rot ''w''
                = Some (if map_of (rotation_of c) ''w'' \<in> {None, Some JNull} then JFloat 1
                        else the (map_of (rotation_of c) ''w''))
            \<and> (\<forall>k. k \<noteq> ''w'' \<longrightarrow> map_of rot k = map_of (rotation_of c) k))
      \<and> (\<forall>k. k \<noteq> ''id'' \<and> k \<noteq> ''rotation'' \<longrightarrow> map_of n k = map_of c k))"

lemma normalize_body_None:
  "normalize_body repr c = None \<longleftrightarrow> id_dropped (dict_get c ''id'')"
  by (auto simp: normalize_body_def Let_def id_dropped_def strip_empty_iff
           split: json.splits sum.splits)

lemma py_dict_rotation:
  assumes "rotation_ok c"
  shows "py_dict (if py_truthy (dict_get c ''rotation'') then dict_get c ''rotation'' else JObj [])
           = Inr (rotation_of c)"
  using assms by (cases "dict_get c ''rotation''") (auto simp: rotation_ok_def rotation_of_def)

lemma normalize_body_Some:
  assumes k: "\<not> id_dropped (dict_get c ''id'')" and r: "rotation_ok c"
  shows "\<exists>n. normalize_body repr c = Some (Inr n) \<and> normalized_from repr n c"
proof -
  let ?cid = "dict_get c ''id''"
  let ?c1 = "dict_set c ''id'' (JStr (py_str repr ?cid))"
  let ?rot = "rotation_of c"
  let ?rot1 = "if \<not> dict_has ?rot ''w'' \<or> dict_get ?rot ''w'' = JNull
               then dict_set ?rot ''w'' (JFloat 1) else ?rot"
  let ?n = "dict_set ?c1 ''rotation'' (JObj ?rot1)"
  have t: "\<not> (\<not> py_truthy ?cid \<or> (case ?cid of JStr s \<Rightarrow> strip s = [] | _ \<Rightarrow> False))"
    using k by (auto simp: id_dropped_def strip_empty_iff split: json.splits)
  have g: "dict_get ?c1 ''rotation'' = dict_get c ''rotation''"
    by (simp add: dict_get_dict_set)
  have b: "normalize_body repr c = Some (Inr ?n)"
    unfolding normalize_body_def Let_def g py_dict_rotation [OF r] using t by simp
  have w: "map_of ?rot1 ''w''
             = Some (if map_of ?rot ''w'' \<in> {None, Some JNull} then JFloat 1
                     else the (map_of ?rot ''w''))"
    by (auto simp: dict_has_def dict_get_def map_of_dict_set split: option.splits)
  have o: "\<forall>k. k \<noteq> ''w'' \<longrightarrow> map_of ?rot1 k = map_of ?rot k"
    by (simp add: map_of_dict_set)
  have "normalized_from repr ?n c"
    unfolding normalized_from_def
  proof (intro conjI exI [of _ ?rot1])
    show "map_of ?n ''id'' = Some (JStr (py_str repr ?cid))"
      by (simp add: map_of_dict_set)
    show "map_of ?n ''rotation'' = Some (JObj ?rot1)"
      by (simp add: map_of_dict_set)
    show "map_of ?rot1 ''w''
             = Some (if map_of ?rot ''w'' \<in> {None, Some JNull} then JFloat 1
                     else the (map_of ?rot ''w''))" by (rule w)
    show "\<forall>k. k \<noteq> ''w'' \<longrightarrow> map_of ?rot1 k = map_of ?rot k" by (rule o)
    show "\<forall>k. k \<noteq> ''id'' \<and> k \<noteq> ''rotation'' \<longrightarrow> map_of ?n k = map_of c k"
      by (simp add: map_of_dict_set)
  qed
  with b show ?thesis by blast
qed

lemma normalize_loop_spec:
  assumes "\<forall>c \<in> set cs. rotation_ok c"
  shows "\<exists>out. normalize_loop repr cs acc = Inr (acc @ out)
           \<and> list_all2 (normalized_from repr) out
                (filter (\<lambda>c. \<not> id_dropped (dict_get c ''id'')) cs)"
  using assms
proof (induction cs arbitrary: acc)
  case Nil
  then show ?case by simp
next
  case (Cons c cs)
  from Cons.prems have rc: "rotation_ok c" and rs: "\<forall>c \<in> set cs. rotation_ok c"
    by simp_all
  show ?case
  proof (cases "id_dropped (dict_get c ''id'')")
    case True
    then have "normalize_body repr c = None" by (simp add: normalize_body_None)
    then have step: "normalize_loop repr (c # cs) acc = normalize_loop repr cs acc" by simp
    from Cons.IH [OF rs, of acc] True show ?thesis unfolding step by simp
  next
    case False
    from normalize_body_Some [OF False rc] obtain n where
      b: "normalize_body repr c = Some (Inr n)" and nf: "normalized_from repr n c" by blast
    have step: "normalize_loop repr (c # cs) acc = normalize_loop repr cs (acc @ [n])"
      using b by simp
    from Cons.IH [OF rs, of "acc @ [n]"] obtain out where
      l: "normalize_loop repr cs (acc @ [n]) = Inr ((acc @ [n]) @ out)"
      and a: "list_all2 (normalized_from repr) out
                (filter (\<lambda>c. \<not> id_dropped (dict_get c ''id'')) cs)" by blast
    have "normalize_loop repr (c # cs) acc = Inr (acc @ (n # out))"
      unfolding step l by simp
    moreover have "list_all2 (normalized_from repr) (n # out)
                (filter (\<lambda>c. \<not> id_dropped (dict_get c ''id'')) (c # cs))"
      using False nf a by simp
    ultimately show ?thesis by blast
  qed
qed

text \<open>
  C5 (as amended).  For every list of controller dictionaries whose \<open>rotation\<close> is a
  mapping, absent or falsy, \<open>normalize_controllers\<close> returns, in the order of the input,
  the normalised form of exactly the entries whose id is not dropped, an id being
  dropped when it is falsy (missing, \<open>null\<close>, \<open>false\<close>, zero, an empty string, list or
  object) or a string of white space only.  A surviving entry has its id converted to a
  string, \<open>rotation.w\<close> set to \<open>1.0\<close> when it was missing or \<open>null\<close> and kept otherwise, the
  other keys of the rotation and all other fields unchanged.  \<open>send_set_controller\<close>
  writes nothing when the normalised list is empty.
\<close>

theorem normalize_controllers_spec:
  assumes "\<forall>c \<in> set cs. rotation_ok c"
  shows "\<exists>out. normalize_controllers repr (Some cs) = Inr out
           \<and> list_all2 (normalized_from repr) out
                (filter (\<lambda>c. \<not> id_dropped (dict_get c ''id'')) cs)
           \<and> (out = [] \<longrightarrow> send_set_controller repr frepr ts conn (Some cs) = Inr conn)"
proof -
  from normalize_loop_spec [OF assms, of repr "[]"] obtain out where
    n: "normalize_controllers repr (Some cs) = Inr out"
    and a: "list_all2 (normalized_from repr) out
                (filter (\<lambda>c. \<not> id_dropped (dict_get c ''id'')) cs)"
    by (auto simp: normalize_controllers_def)
  have "out = [] \<longrightarrow> send_set_controller repr frepr ts conn (Some cs) = Inr conn"
    by (simp add: send_set_controller_def n)
  with n a show ?thesis by blast
qed

theorem normalize_controllers_spec_witness:
  "list_all rotation_ok controllers_example
   \<and> (\<exists>out. normalize_controllers repr_stub (Some controllers_example) = Inr out
          \<and> list_all2 (normalized_from repr_stub) out
               [controllers_example ! 0, controllers_example ! 2]
          \<and> length out = 2)"
proof -
  have r: "\<forall>c \<in> set controllers_example. rotation_ok c"
    by (simp add: controllers_example_def rotation_ok_def dict_get_def)
  have f: "filter (\<lambda>c. \<not> id_dropped (dict_get c ''id'')) controllers_example
             = [controllers_example ! 0, controllers_example ! 2]"
    by (simp add: controllers_example_def id_dropped_def dict_get_def is_space_def)
  from normalize_controllers_spec [OF r, of repr_stub frepr_stub "[]" sock0]
  obtain out where n: "normalize_controllers repr_stub (Some controllers_example) = Inr out"
    and a: "list_all2 (normalized_from repr_stub) out
              [controllers_example ! 0, controllers_example ! 2]"
    unfolding f by blast
  from a have "length out = 2" by (simp add: list_all2_lengthD)
  moreover have "list_all rotation_ok controllers_example"
    using r by (simp add: list_all_iff)
  ultimately show ?thesis using n a by blast
qed

text \<open>
  C5 as stated fails: an entry whose id is the number \<open>0\<close> has an id that is present, not
  \<open>null\<close> and not a string, and \<open>normalize_controllers\<close> drops it.
\<close>

theorem normalize_controllers_drops_zero_id:
  "dict_has [(''id'', JInt 0)] ''id''
   \<and> dict_get [(''id'', JInt 0)] ''id'' = JInt 0
   \<and> normalize_controllers repr_stub (Some [[(''id'', JInt 0)]]) = Inr []"
  by (simp add: dict_has_def dict_get_def normalize_controllers_def normalize_body_def)

section \<open>The set\_controller scenario\<close>

text \<open>A native connection registered under the strings \<open>pid\<close> and \<open>pname\<close>.\<close>

definition registered_as :: "bridge \<Rightarrow> conn \<Rightarrow> string \<Rightarrow> string \<Rightarrow> bool" where
  "registered_as st c pid pname =
     (case tcp_identities st c of
        None \<Rightarrow> False
      | Some ident \<Rightarrow> dict_get ident ''id'' = JStr pid \<and> dict_get ident ''name'' = JStr pname)"

text \<open>
  C6 (as amended).  When a browser sends a \<open>set_controller\<close> envelope addressed to
  \<open>(pid, pname)\<close>, every live native connection registered as \<open>(pid, pname)\<close> whose
  socket accepts the write receives one frame whose payload is the serialisation of the
  envelope as the browser sent it, its controllers unchanged; the socket of every
  connection registered under another identity, or under none, is left as it was.
\<close>

theorem set_controller_forwarded_verbatim:
  assumes "distinct (tcp_clients st)"
    and "dict_get kvs ''cmd'' = JStr ''set_controller''"
    and "dict_get kvs ''id'' = JStr pid" and "dict_get kvs ''name'' = JStr pname"
    and "length (utf8_encode (dumps_default frepr (JObj kvs))) < 2 ^ 32"
  shows "\<exists>st'. ws_dispatch frepr st w (JObj kvs) = Continue st'
      \<and> (\<forall>c. socks st' c =
            (if c \<in> set (tcp_clients st) \<and> registered_as st c pid pname
                \<and> \<not> broken (socks st c) \<and> \<not> closed (socks st c)
             then (socks st c)\<lparr>outgoing := outgoing (socks st c)
                    @ [le32 (length (utf8_encode (dumps_default frepr (JObj kvs))))
                       @ utf8_encode (dumps_default frepr (JObj kvs))]\<rparr>
             else socks st c))"
proof -
  let ?wire = "utf8_encode (dumps_default frepr (JObj kvs))"
  let ?st' = "forward_loop st (tcp_clients st) (JStr pid) (JStr pname) ?wire"
  have d: "ws_dispatch frepr st w (JObj kvs) = Continue ?st'"
    using assms(2,3,4) by (simp add: ws_dispatch_def)
  have m: "(\<exists>ident. tcp_identities st c = Some ident \<and> ident \<noteq> []
               \<and> py_eq (dict_get ident ''id'') (JStr pid)
               \<and> py_eq (dict_get ident ''name'') (JStr pname))
           \<longleftrightarrow> registered_as st c pid pname" for c
    by (cases "tcp_identities st c")
       (auto simp: registered_as_def py_eq_str_right dict_get_def)
  have "\<forall>c. socks ?st' c =
            (if c \<in> set (tcp_clients st) \<and> registered_as st c pid pname
                \<and> \<not> broken (socks st c) \<and> \<not> closed (socks st c)
             then (socks st c)\<lparr>outgoing := outgoing (socks st c)
                    @ [le32 (length ?wire) @ ?wire]\<rparr>
             else socks st c)"
    unfolding forward_loop_socks [OF assms(1)] m using assms(5) by auto
  with d show ?thesis by blast
qed

lemma set_controller_msg_length:
  "length (utf8_encode (dumps_default frepr_stub (JObj set_controller_msg))) < 2 ^ 32"
  by (simp add: set_controller_msg_def utf8_encode_def dumps_default_def quote_str_def
        escape_char_def int_str_def)

theorem set_controller_forwarded_verbatim_witness:
  "distinct (tcp_clients bridge_plugins)
   \<and> dict_get set_controller_msg ''cmd'' = JStr ''set_controller''
   \<and> dict_get set_controller_msg ''id'' = JStr ''p1''
   \<and> dict_get set_controller_msg ''name'' = JStr ''PluginA''
   \<and> (\<exists>st'. ws_dispatch frepr_stub bridge_plugins 0 (JObj set_controller_msg) = Continue st'
        \<and> outgoing (socks st' 1)
            = [le32 (length (utf8_encode (dumps_default frepr_stub (JObj set_controller_msg))))
               @ utf8_encode (dumps_default frepr_stub (JObj set_controller_msg))]
        \<and> socks st' 2 = sock0 \<and> socks st' 3 = sock0)"
proof -
  let ?W = "utf8_encode (dumps_default frepr_stub (JObj set_controller_msg))"
  have a1: "distinct (tcp_clients bridge_plugins)"
    by (simp add: bridge_plugins_def bridge0_def)
  have a2: "dict_get set_controller_msg ''cmd'' = JStr ''set_controller''"
    and a3: "dict_get set_controller_msg ''id'' = JStr ''p1''"
    and a4: "dict_get set_controller_msg ''name'' = JStr ''PluginA''"
    by (simp_all add: set_controller_msg_def dict_get_def)
  from set_controller_forwarded_verbatim [OF a1 a2 a3 a4 set_controller_msg_length, of 0]
  obtain st' where c: "ws_dispatch frepr_stub bridge_plugins 0 (JObj set_controller_msg) = Continue st'"
    and s: "\<And>c. socks st' c =
            (if c \<in> set (tcp_clients bridge_plugins) \<and> registered_as bridge_plugins c ''p1'' ''PluginA''
                \<and> \<not> broken (socks bridge_plugins c) \<and> \<not> closed (socks bridge_plugins c)
             then (socks bridge_plugins c)\<lparr>outgoing := outgoing (socks bridge_plugins c)
                    @ [le32 (length ?W) @ ?W]\<rparr>
             else socks bridge_plugins c)"
    by blast
  have s1: "outgoing (socks st' 1) = [le32 (length ?W) @ ?W]"
    unfolding s [of 1]
    by (simp add: bridge_plugins_def bridge0_def sock0_def registered_as_def dict_get_def)
  have s2: "socks st' 2 = sock0"
    unfolding s [of 2]
    by (simp add: bridge_plugins_def bridge0_def registered_as_def dict_get_def)
  have s3: "socks st' 3 = sock0"
    unfolding s [of 3]
    by (simp add: bridge_plugins_def bridge0_def registered_as_def)
  from a1 a2 a3 a4 c s1 s2 s3 show ?thesis by blast
qed

text \<open>
  C6 as stated fails: the browser's envelope carries a controller with an empty id, which
  normalisation drops, and the frame the native connection \<open>(p1, PluginA)\<close> receives is
  that of the envelope as sent, not that of the envelope with normalised controllers.
\<close>

theorem set_controller_not_normalized:
  "normalize_controllers repr_stub
       (Some [[(''id'', JStr ''l_hand''), (''rotation'', JObj [(''w'', JInt 1)])],
              [(''id'', JStr '''')]])
     = Inr [[(''id'', JStr ''l_hand''), (''rotation'', JObj [(''w'', JInt 1)])]]
   \<and> ws_dispatch frepr_stub bridge_plugins 0 (JObj set_controller_msg)
       = Continue (forward_loop bridge_plugins [1, 2, 3] (JStr ''p1'') (JStr ''PluginA'')
                     (utf8_encode (dumps_default frepr_stub (JObj set_controller_msg))))
   \<and> outgoing (socks (forward_loop bridge_plugins [1, 2, 3] (JStr ''p1'') (JStr ''PluginA'')
                         (utf8_encode (dumps_default frepr_stub (JObj set_controller_msg)))) 1)
       = [le32 (length (utf8_encode (dumps_default frepr_stub (JObj set_controller_msg))))
          @ utf8_encode (dumps_default frepr_stub (JObj set_controller_msg))]
   \<and> le32 (length (utf8_encode (dumps_default frepr_stub (JObj set_controller_msg))))
       @ utf8_encode (dumps_default frepr_stub (JObj set_controller_msg))
     \<noteq> le32 (length (utf8_encode (dumps_default frepr_stub (JObj set_controller_msg_normalized))))
       @ utf8_encode (dumps_default frepr_stub (JObj set_controller_msg_normalized))"
proof -
  let ?W = "utf8_encode (dumps_default frepr_stub (JObj set_controller_msg))"
  let ?N = "utf8_encode (dumps_default frepr_stub (JObj set_controller_msg_normalized))"
  have n: "normalize_controllers repr_stub
       (Some [[(''id'', JStr ''l_hand''), (''rotation'', JObj [(''w'', JInt 1)])],
              [(''id'', JStr '''')]])
     = Inr [[(''id'', JStr ''l_hand''), (''rotation'', JObj [(''w'', JInt 1)])]]"
    by (simp add: normalize_controllers_def normalize_body_def dict_get_def dict_has_def
          py_str_def strip_def is_space_def)
  have lw: "length ?W = 125"
    by (simp add: set_controller_msg_def utf8_encode_def dumps_default_def quote_str_def
          escape_char_def int_str_def)
  have ln: "length ?N = 113"
    by (simp add: set_controller_msg_normalized_def utf8_encode_def dumps_default_def
          quote_str_def escape_char_def int_str_def)
  have ne: "le32 (length ?W) @ ?W \<noteq> le32 (length ?N) @ ?N"
  proof
    assume "le32 (length ?W) @ ?W = le32 (length ?N) @ ?N"
    then have "length (le32 (length ?W) @ ?W) = length (le32 (length ?N) @ ?N)" by simp
    then show False unfolding length_append length_le32 lw ln by simp
  qed
  have tc: "tcp_clients bridge_plugins = [1, 2, 3]"
    by (simp add: bridge_plugins_def bridge0_def)
  have d: "distinct [1, 2, 3 :: conn]" by simp
  have fw0: "ws_dispatch frepr_stub bridge_plugins 0 (JObj set_controller_msg)
      = Continue (forward_loop bridge_plugins (tcp_clients bridge_plugins)
                    (JStr ''p1'') (JStr ''PluginA'') ?W)"
    by (simp add: ws_dispatch_def set_controller_msg_def dict_get_def)
  have fw: "ws_dispatch frepr_stub bridge_plugins 0 (JObj set_controller_msg)
      = Continue (forward_loop bridge_plugins [1, 2, 3] (JStr ''p1'') (JStr ''PluginA'') ?W)"
    using fw0 unfolding tc .
  have o: "outgoing (socks (forward_loop bridge_plugins [1, 2, 3]
                    (JStr ''p1'') (JStr ''PluginA'') ?W) 1) = [le32 (length ?W) @ ?W]"
    unfolding forward_loop_socks [OF d] using lw
    by (simp add: bridge_plugins_def bridge0_def sock0_def dict_get_def)
  from n fw o ne show ?thesis by blast
qed

end
